theory Spec2Isabelle
  imports Main "HOL-Library.Word"
begin

section \<open>Machine types and constants\<close>

text \<open>
  A sector of the block device is \<open>BLOCK_SECTOR_SIZE\<close> bytes; sector numbers
  (\<open>block_sector_t\<close>) are unsigned 32-bit values. \<open>off_t\<close> and \<open>int\<close> are signed
  32-bit: they are modelled as \<open>int\<close>, with C's truncating division written out and the
  wrap-around written as \<open>s32\<close> wherever a sum or difference can leave the range.
  A \<open>struct block *\<close> is a device handle, a natural number.
\<close>

type_synonym byte = "8 word"
type_synonym block_sector_t = "32 word"
type_synonym sector_data = "byte list"

text \<open>Modelled from the spec: \<open>BLOCK_SECTOR_SIZE\<close> (devices/block.h), 512 bytes.\<close>

definition BLOCK_SECTOR_SIZE :: int where
  "BLOCK_SECTOR_SIZE = 512"

definition CACHE_SIZE :: nat where
  "CACHE_SIZE = 64"

definition READ_AHEAD_BUFFER_SIZE :: nat where
  "READ_AHEAD_BUFFER_SIZE = 64"

text \<open>Modelled from the spec: \<open>NAME_MAX\<close> and \<open>PATH_MAX\<close> (filesys/directory.h), 14 and 256.\<close>

definition NAME_MAX :: nat where
  "NAME_MAX = 14"

definition PATH_MAX :: nat where
  "PATH_MAX = 256"

definition INODE_MAGIC :: "32 word" where
  "INODE_MAGIC = 0x494e4f44"

definition s32 :: "int \<Rightarrow> int" where
  "s32 x = (x + 2 ^ 31) mod 2 ^ 32 - 2 ^ 31"

definition cdiv :: "int \<Rightarrow> int \<Rightarrow> int" where
  "cdiv a b = sgn a * sgn b * (\<bar>a\<bar> div \<bar>b\<bar>)"

definition cmod :: "int \<Rightarrow> int \<Rightarrow> int" where
  "cmod a b = a - b * cdiv a b"

text \<open>
  How a call can fail to return a value: the thread waits on a semaphore or condition
  that nothing in the run signals (\<open>Blocked\<close>), a null or dangling pointer is
  dereferenced (\<open>BadPointer\<close>), an array is indexed outside its bounds
  (\<open>OutOfBounds\<close>), a loop has not finished within the given number of iterations
  (\<open>OutOfFuel\<close>), or an \<open>ASSERT\<close> fails and the kernel panics (\<open>AssertFailed\<close>).
\<close>

datatype stop = Blocked | BadPointer | OutOfBounds | OutOfFuel | AssertFailed

subsection \<open>Sectors as arrays of 32-bit words (little endian, as on x86)\<close>

definition le32 :: "byte list \<Rightarrow> 32 word" where
  "le32 bs = foldr (\<lambda>b w. or (ucast b) (push_bit 8 w)) bs 0"

definition bytes_of_u32 :: "32 word \<Rightarrow> byte list" where
  "bytes_of_u32 w = map (\<lambda>i. ucast (drop_bit (8 * i) w)) [0..<4]"

definition u32_at :: "sector_data \<Rightarrow> nat \<Rightarrow> 32 word" where
  "u32_at d i = le32 (take 4 (drop (4 * i) d))"

definition words_of_sector :: "sector_data \<Rightarrow> 32 word list" where
  "words_of_sector d = map (u32_at d) [0..<128]"

definition sector_of_words :: "32 word list \<Rightarrow> sector_data" where
  "sector_of_words ws = concat (map bytes_of_u32 ws)"

definition zeros :: sector_data where
  "zeros = replicate 512 0"

section \<open>The state of the file system\<close>

record cache_block =
  dirty :: bool
  valid :: bool
  disk_sector :: block_sector_t
  time :: int
  sema :: nat
  block :: nat
  disk_data :: sector_data

text \<open>A request of the read-ahead buffer (\<open>struct read_head_elem\<close>: sector, block).\<close>

record read_head_elem =
  elem_sector :: block_sector_t
  elem_block :: nat

record inode_disk =
  blocks :: "block_sector_t list"
  direct_usage :: "32 word"
  indirect_used :: "32 word"
  indirect_block_usage :: "32 word"
  double_used :: "32 word"
  double_l1_usage :: "32 word"
  double_l2_usage :: "32 word"
  sector_usage :: "32 word"
  length_bytes :: int
  magic :: "32 word"
  is_dir :: bool
  is_dir_pad :: "byte list"
  parent :: block_sector_t
  unused :: "32 word list"

record inode =
  sector :: block_sector_t
  open_cnt :: int
  removed :: bool
  deny_write_cnt :: int
  data :: inode_disk

datatype io_event = BlockRead nat block_sector_t | BlockWrite nat block_sector_t

text \<open>
  The kernel state the file system works on. \<open>dev_data\<close> and \<open>dev_size\<close> are the block
  devices, \<open>io_log\<close> records every \<open>block_read\<close> and \<open>block_write\<close> in order, \<open>ticks\<close>
  is what \<open>timer_ticks ()\<close> returns, \<open>free_map\<close> has one bit per sector (set: in use),
  \<open>inode_heap\<close> holds the in-memory inodes by address, \<open>open_inodes\<close> is the list of
  open inodes (addresses, front first), and \<open>mem_left\<close> is the number of allocations
  the kernel allocator will still grant.
\<close>

record fs_state =
  fs_device :: nat
  dev_data :: "nat \<Rightarrow> block_sector_t \<Rightarrow> sector_data"
  dev_size :: "nat \<Rightarrow> nat"
  io_log :: "io_event list"
  ticks :: int
  cache :: "cache_block list"
  read_head_buffer :: "read_head_elem list"
  read_head_buffer_n :: "32 word"
  free_map :: "bool list"
  mem_left :: nat
  next_addr :: nat
  inode_heap :: "nat \<Rightarrow> inode option"
  open_inodes :: "nat list"

subsection \<open>The block device\<close>

text \<open>
  Modelled from the spec: \<open>block_read\<close>, \<open>block_write\<close> and \<open>block_size\<close>
  (devices/block.c) transfer one sector between the device and a buffer.
\<close>

definition block_read :: "nat \<Rightarrow> block_sector_t \<Rightarrow> fs_state \<Rightarrow> sector_data \<times> fs_state" where
  "block_read b s st = (dev_data st b s, st\<lparr>io_log := io_log st @ [BlockRead b s]\<rparr>)"

definition block_write :: "nat \<Rightarrow> block_sector_t \<Rightarrow> sector_data \<Rightarrow> fs_state \<Rightarrow> fs_state" where
  "block_write b s d st =
     st\<lparr>dev_data := (dev_data st)(b := (dev_data st b)(s := d)),
        io_log := io_log st @ [BlockWrite b s]\<rparr>"

definition block_size :: "nat \<Rightarrow> fs_state \<Rightarrow> nat" where
  "block_size b st = dev_size st b"

section \<open>The sector cache\<close>

definition line_upd :: "nat \<Rightarrow> (cache_block \<Rightarrow> cache_block) \<Rightarrow> fs_state \<Rightarrow> fs_state" where
  "line_upd k f st = st\<lparr>cache := (cache st)[k := f (cache st ! k)]\<rparr>"

definition sema_down :: "nat \<Rightarrow> fs_state \<Rightarrow> stop + fs_state" where
  "sema_down k st =
     (if sema (cache st ! k) = 0 then Inl Blocked
      else Inr (line_upd k (\<lambda>l. l\<lparr>sema := sema l - 1\<rparr>) st))"

definition sema_up :: "nat \<Rightarrow> fs_state \<Rightarrow> fs_state" where
  "sema_up k st = line_upd k (\<lambda>l. l\<lparr>sema := sema l + 1\<rparr>) st"

text \<open>\<open>find_cacheline\<close>: the loop from line \<open>k\<close> on.\<close>

function find_cacheline_from ::
  "nat \<Rightarrow> nat \<Rightarrow> block_sector_t \<Rightarrow> fs_state \<Rightarrow> stop + (nat option \<times> fs_state)" where
  "find_cacheline_from k b s st =
     (if k < CACHE_SIZE then
        (case sema_down k st of
           Inl e \<Rightarrow> Inl e
         | Inr st1 \<Rightarrow>
             if valid (cache st1 ! k) \<and> block (cache st1 ! k) = b
                \<and> disk_sector (cache st1 ! k) = s
             then Inr (Some k, st1)
             else find_cacheline_from (k + 1) b s (sema_up k st1))
      else Inr (None, st))"
  by pat_completeness auto
termination
  by (relation "measure (\<lambda>(k, b, s, st). CACHE_SIZE - k)") auto

declare find_cacheline_from.simps [simp del]

definition find_cacheline ::
  "nat \<Rightarrow> block_sector_t \<Rightarrow> fs_state \<Rightarrow> stop + (nat option \<times> fs_state)" where
  "find_cacheline b s st = find_cacheline_from 0 b s st"

text \<open>
  \<open>choose_evict\<close>: the scan from line \<open>k\<close> on, with the candidate \<open>evict\<close> (a line
  index, \<open>None\<close> for the null pointer) and \<open>earlist_time\<close>. \<open>Returned k\<close> is the
  \<open>return cache_line\<close> inside the loop; \<open>Scanned evict\<close> is the end of the loop.
\<close>

datatype scan = Returned nat | Scanned "nat option"

definition sema_up_opt :: "nat option \<Rightarrow> fs_state \<Rightarrow> fs_state" where
  "sema_up_opt evict st = (case evict of None \<Rightarrow> st | Some e \<Rightarrow> sema_up e st)"

function choose_evict_from ::
  "nat \<Rightarrow> nat option \<Rightarrow> int \<Rightarrow> fs_state \<Rightarrow> stop + (scan \<times> fs_state)" where
  "choose_evict_from k evict earlist_time st =
     (if k < CACHE_SIZE then
        (case sema_down k st of
           Inl e \<Rightarrow> Inl e
         | Inr st1 \<Rightarrow>
             if \<not> valid (cache st1 ! k)
             then Inr (Returned k, sema_up_opt evict st1)
             else if time (cache st1 ! k) < earlist_time
             then choose_evict_from (k + 1) (Some k) (time (cache st1 ! k))
                    (sema_up_opt evict st1)
             else choose_evict_from (k + 1) evict earlist_time (sema_up k st1))
      else Inr (Scanned evict, st))"
  by pat_completeness auto
termination
  by (relation "measure (\<lambda>(k, evict, t, st). CACHE_SIZE - k)") auto

declare choose_evict_from.simps [simp del]

definition choose_evict :: "fs_state \<Rightarrow> stop + (nat \<times> fs_state)" where
  "choose_evict st =
     (case choose_evict_from 0 None (ticks st) st of
        Inl e \<Rightarrow> Inl e
      | Inr (Returned k, st1) \<Rightarrow> Inr (k, st1)
      | Inr (Scanned None, st1) \<Rightarrow> Inl BadPointer
      | Inr (Scanned (Some e), st1) \<Rightarrow>
          if dirty (cache st1 ! e)
          then Inr (e, block_write (block (cache st1 ! e)) (disk_sector (cache st1 ! e))
                         (disk_data (cache st1 ! e)) st1)
          else Inr (e, st1))"

text \<open>
  \<open>put_read_ahead_buffer\<close>, the producer. The body runs under \<open>read_head_lock\<close>, so it
  is one atomic step on the buffer; while the buffer is full the caller waits on
  \<open>read_head_buffer_not_full\<close>.
\<close>

definition put_read_ahead_buffer :: "nat \<Rightarrow> block_sector_t \<Rightarrow> fs_state \<Rightarrow> stop + fs_state" where
  "put_read_ahead_buffer b s st =
     (if unat (read_head_buffer_n st) = READ_AHEAD_BUFFER_SIZE then Inl Blocked
      else if READ_AHEAD_BUFFER_SIZE < unat (read_head_buffer_n st) then Inl OutOfBounds
      else Inr (st\<lparr>read_head_buffer :=
                      (read_head_buffer st)[unat (read_head_buffer_n st) :=
                         \<lparr>elem_sector = s, elem_block = b\<rparr>],
                   read_head_buffer_n := read_head_buffer_n st + 1\<rparr>))"

definition cache_read :: "nat \<Rightarrow> block_sector_t \<Rightarrow> fs_state \<Rightarrow> stop + (sector_data \<times> fs_state)" where
  "cache_read b s st =
     (case find_cacheline b s st of
        Inl e \<Rightarrow> Inl e
      | Inr (found, st1) \<Rightarrow>
          (case (case found of
                   Some k \<Rightarrow> Inr (k, st1)
                 | None \<Rightarrow>
                     (case choose_evict st1 of
                        Inl e \<Rightarrow> Inl e
                      | Inr (k, st2) \<Rightarrow>
                          (let st3 = line_upd k (\<lambda>l. l\<lparr>dirty := False, valid := True,
                                        disk_sector := s, block := b\<rparr>) st2;
                               (d, st4) = block_read b s st3
                           in Inr (k, line_upd k (\<lambda>l. l\<lparr>disk_data := d\<rparr>) st4))))
           of
             Inl e \<Rightarrow> Inl e
           | Inr (k, st5) \<Rightarrow>
               (let buffer = disk_data (cache st5 ! k);
                    st6 = line_upd k (\<lambda>l. l\<lparr>time := ticks st5\<rparr>) st5;
                    st7 = sema_up k st6
                in (case put_read_ahead_buffer b (s + 1) st7 of
                      Inl e \<Rightarrow> Inl e
                    | Inr st8 \<Rightarrow> Inr (buffer, st8)))))"

definition cache_write :: "nat \<Rightarrow> block_sector_t \<Rightarrow> sector_data \<Rightarrow> fs_state \<Rightarrow> stop + fs_state" where
  "cache_write b s buffer st =
     (case find_cacheline b s st of
        Inl e \<Rightarrow> Inl e
      | Inr (found, st1) \<Rightarrow>
          (case (case found of
                   Some k \<Rightarrow> Inr (k, st1)
                 | None \<Rightarrow>
                     (case choose_evict st1 of
                        Inl e \<Rightarrow> Inl e
                      | Inr (k, st2) \<Rightarrow>
                          Inr (k, line_upd k (\<lambda>l. l\<lparr>dirty := True, valid := True,
                                    disk_sector := s, block := b\<rparr>) st2)))
           of
             Inl e \<Rightarrow> Inl e
           | Inr (k, st3) \<Rightarrow>
               Inr (sema_up k
                      (line_upd k (\<lambda>l. l\<lparr>disk_data := buffer, time := ticks st3,
                          dirty := True\<rparr>) st3))))"

text \<open>
  One turn of the loop of \<open>read_ahead\<close>, the consumer: it waits while the buffer is
  empty, pops the request at the top index and reads its sector into the cache. The
  result carries the request it removed.
\<close>

definition read_ahead_step :: "fs_state \<Rightarrow> stop + (read_head_elem \<times> fs_state)" where
  "read_ahead_step st =
     (if read_head_buffer_n st = 0 then Inl Blocked
      else
        (let st1 = st\<lparr>read_head_buffer_n := read_head_buffer_n st - 1\<rparr>;
             el = read_head_buffer st1 ! unat (read_head_buffer_n st1)
         in if READ_AHEAD_BUFFER_SIZE \<le> unat (read_head_buffer_n st1) then Inl OutOfBounds
            else if unat (elem_sector el) < block_size (elem_block el) st1 then
              (case find_cacheline (elem_block el) (elem_sector el) st1 of
                 Inl e \<Rightarrow> Inl e
               | Inr (found, st2) \<Rightarrow>
                   (case (case found of
                            Some k \<Rightarrow> Inr (k, st2)
                          | None \<Rightarrow>
                              (case choose_evict st2 of
                                 Inl e \<Rightarrow> Inl e
                               | Inr (k, st3) \<Rightarrow>
                                   (let st4 = line_upd k (\<lambda>l. l\<lparr>dirty := False, valid := True,
                                                 disk_sector := elem_sector el,
                                                 block := elem_block el\<rparr>) st3;
                                        (d, st5) = block_read (elem_block el) (elem_sector el) st4
                                    in Inr (k, line_upd k (\<lambda>l. l\<lparr>disk_data := d\<rparr>) st5))))
                    of
                      Inl e \<Rightarrow> Inl e
                    | Inr (k, st6) \<Rightarrow> Inr (el, sema_up k st6)))
            else Inr (el, st1)))"

text \<open>\<open>flush_cache\<close>: the loop from line \<open>k\<close> on.\<close>

function flush_cache_from :: "nat \<Rightarrow> fs_state \<Rightarrow> stop + fs_state" where
  "flush_cache_from k st =
     (if k < CACHE_SIZE then
        (case sema_down k st of
           Inl e \<Rightarrow> Inl e
         | Inr st1 \<Rightarrow>
             (let st2 = (if dirty (cache st1 ! k)
                         then line_upd k (\<lambda>l. l\<lparr>dirty := False\<rparr>)
                                (block_write (block (cache st1 ! k)) (disk_sector (cache st1 ! k))
                                   (disk_data (cache st1 ! k)) st1)
                         else st1)
              in flush_cache_from (k + 1) (sema_up k st2)))
      else Inr st)"
  by pat_completeness auto
termination
  by (relation "measure (\<lambda>(k, st). CACHE_SIZE - k)") auto

declare flush_cache_from.simps [simp del]

definition flush_cache :: "fs_state \<Rightarrow> stop + fs_state" where
  "flush_cache st = flush_cache_from 0 st"

section \<open>The inode layer\<close>

subsection \<open>The on-disk inode as a sector\<close>

text \<open>
  \<open>struct inode_disk\<close> overlays one sector: \<open>blocks\<close> are words 0 to 11, the seven
  counters words 12 to 18, \<open>length\<close> word 19, \<open>magic\<close> word 20, \<open>is_dir\<close> the first
  byte of word 21 (three bytes of padding follow), \<open>parent\<close> word 22 and \<open>unused\<close>
  words 23 to 127.
\<close>

definition inode_disk_of_bytes :: "sector_data \<Rightarrow> inode_disk" where
  "inode_disk_of_bytes d =
     \<lparr>blocks = map (u32_at d) [0..<12],
      direct_usage = u32_at d 12,
      indirect_used = u32_at d 13,
      indirect_block_usage = u32_at d 14,
      double_used = u32_at d 15,
      double_l1_usage = u32_at d 16,
      double_l2_usage = u32_at d 17,
      sector_usage = u32_at d 18,
      length_bytes = sint (u32_at d 19),
      magic = u32_at d 20,
      is_dir = (d ! 84 \<noteq> 0),
      is_dir_pad = take 3 (drop 85 d),
      parent = u32_at d 22,
      unused = map (u32_at d) [23..<128]\<rparr>"

definition bytes_of_inode_disk :: "inode_disk \<Rightarrow> sector_data" where
  "bytes_of_inode_disk i =
     sector_of_words (blocks i)
     @ sector_of_words [direct_usage i, indirect_used i, indirect_block_usage i,
          double_used i, double_l1_usage i, double_l2_usage i, sector_usage i,
          word_of_int (length_bytes i), magic i]
     @ [if is_dir i then 1 else 0] @ is_dir_pad i
     @ sector_of_words (parent i # unused i)"

subsection \<open>The free map and the allocator\<close>

text \<open>
  Modelled from the spec: \<open>free_map_allocate (1, &sector)\<close> and
  \<open>free_map_release (sector, 1)\<close> (filesys/free-map.c), a bitmap allocator over the
  device's sectors. An allocation takes the first free sector and stores its number; when
  no sector is free it returns false and stores nothing.
\<close>

fun first_free :: "bool list \<Rightarrow> nat option" where
  "first_free [] = None"
| "first_free (b # bs) = (if b then map_option Suc (first_free bs) else Some 0)"

definition free_map_allocate :: "fs_state \<Rightarrow> block_sector_t option \<times> fs_state" where
  "free_map_allocate st =
     (case first_free (free_map st) of
        None \<Rightarrow> (None, st)
      | Some i \<Rightarrow> (Some (of_nat i), st\<lparr>free_map := (free_map st)[i := True]\<rparr>))"


text \<open>What an out-parameter holds after \<open>free_map_allocate (1, &x)\<close>.\<close>

definition stored :: "block_sector_t option \<Rightarrow> block_sector_t \<Rightarrow> block_sector_t" where
  "stored r old = (case r of None \<Rightarrow> old | Some s \<Rightarrow> s)"

text \<open>
  \<open>malloc\<close> and \<open>calloc\<close> (threads/malloc.c) succeed while \<open>mem_left\<close> is positive;
  \<open>free\<close> gives the allocation back.
\<close>

definition malloc :: "fs_state \<Rightarrow> bool \<times> fs_state" where
  "malloc st = (if mem_left st = 0 then (False, st) else (True, st\<lparr>mem_left := mem_left st - 1\<rparr>))"

definition free :: "fs_state \<Rightarrow> fs_state" where
  "free st = st\<lparr>mem_left := mem_left st + 1\<rparr>"

subsection \<open>Byte offset to sector\<close>

definition bytes_to_sectors :: "int \<Rightarrow> int" where
  "bytes_to_sectors sz = cdiv (s32 (sz + BLOCK_SECTOR_SIZE - 1)) BLOCK_SECTOR_SIZE mod 2 ^ 32"

definition byte_to_sector :: "inode \<Rightarrow> int \<Rightarrow> fs_state \<Rightarrow> stop + (block_sector_t \<times> fs_state)" where
  "byte_to_sector ino pos st =
     (if pos < length_bytes (data ino) then
        (if pos < 10 * BLOCK_SECTOR_SIZE then
           (if cdiv pos BLOCK_SECTOR_SIZE < 0 then Inl OutOfBounds
            else Inr (blocks (data ino) ! nat (cdiv pos BLOCK_SECTOR_SIZE), st))
         else if pos - 10 * BLOCK_SECTOR_SIZE < 128 * BLOCK_SECTOR_SIZE then
           (let (temp_blocks, st1) = block_read (fs_device st) (blocks (data ino) ! 10) st
            in Inr (words_of_sector temp_blocks
                      ! nat (cdiv (pos - 10 * BLOCK_SECTOR_SIZE) BLOCK_SECTOR_SIZE), st1))
         else
           (let (temp_l1_blocks, st1) = block_read (fs_device st) (blocks (data ino) ! 11) st;
                l1_index = nat (cdiv (pos - (10 + 128) * BLOCK_SECTOR_SIZE)
                                  (128 * BLOCK_SECTOR_SIZE))
            in if 128 \<le> l1_index then Inl OutOfBounds
               else
                 (let (temp_l2_blocks, st2) =
                        block_read (fs_device st1) (words_of_sector temp_l1_blocks ! l1_index) st1
                  in Inr (words_of_sector temp_l2_blocks
                            ! nat (cdiv (cmod (pos - (10 + 128) * BLOCK_SECTOR_SIZE)
                                           (128 * BLOCK_SECTOR_SIZE)) BLOCK_SECTOR_SIZE), st2))))
      else Inr (- 1, st))"

subsection \<open>Growing and freeing\<close>

text \<open>
  \<open>inode_disk_grow\<close>. \<open>junk\<close> is what an uninitialised local array of 128 sector
  numbers holds. The first function is the \<open>for\<close> loop of the indirect phase, the second
  the inner and the third the outer \<open>for\<close> loop of the doubly-indirect phase; each
  returns the array, the inode, the state and \<open>remain_sectors\<close>.
\<close>

function grow_indirect ::
  "nat \<Rightarrow> block_sector_t list \<Rightarrow> inode_disk \<Rightarrow> fs_state \<Rightarrow> int
     \<Rightarrow> block_sector_t list \<times> inode_disk \<times> fs_state \<times> int" where
  "grow_indirect i blocks_indirect d st remain =
     (if i < 128 \<and> remain > 0 then
        (let (r, st1) = free_map_allocate st;
             bi = blocks_indirect[i := stored r (blocks_indirect ! i)];
             st2 = block_write (fs_device st1) (bi ! i) zeros st1;
             d1 = d\<lparr>indirect_block_usage := indirect_block_usage d + 1,
                    sector_usage := sector_usage d + 1\<rparr>
         in grow_indirect (i + 1) bi d1 st2 (remain - 1))
      else (blocks_indirect, d, st, remain))"
  by pat_completeness auto
termination
  by (relation "measure (\<lambda>(i, bi, d, st, remain). 128 - i)") auto

declare grow_indirect.simps [simp del]

function grow_l2 ::
  "nat \<Rightarrow> block_sector_t list \<Rightarrow> inode_disk \<Rightarrow> fs_state \<Rightarrow> int
     \<Rightarrow> block_sector_t list \<times> inode_disk \<times> fs_state \<times> int" where
  "grow_l2 j blocks_l2 d st remain =
     (if j < 128 \<and> remain > 0 then
        (let (r, st1) = free_map_allocate st;
             b2 = blocks_l2[j := stored r (blocks_l2 ! j)];
             st2 = block_write (fs_device st1) (b2 ! j) zeros st1;
             d1 = d\<lparr>double_l2_usage := double_l2_usage d + 1,
                    sector_usage := sector_usage d + 1\<rparr>;
             d2 = (if j = 127
                   then d1\<lparr>double_l2_usage := 0, double_l1_usage := double_l1_usage d1 + 1\<rparr>
                   else d1)
         in grow_l2 (j + 1) b2 d2 st2 (remain - 1))
      else (blocks_l2, d, st, remain))"
  by pat_completeness auto
termination
  by (relation "measure (\<lambda>(j, b2, d, st, remain). 128 - j)") auto

declare grow_l2.simps [simp del]

function grow_l1 ::
  "block_sector_t list \<Rightarrow> nat \<Rightarrow> block_sector_t list \<Rightarrow> inode_disk \<Rightarrow> fs_state \<Rightarrow> int
     \<Rightarrow> block_sector_t list \<times> inode_disk \<times> fs_state \<times> int" where
  "grow_l1 junk i blocks_l1 d st remain =
     (if i < 128 \<and> remain > 0 then
        (let (blocks_l2, b1, st1) =
               (if double_l2_usage d > 0
                then (let (sd, st') = block_read (fs_device st) (blocks_l1 ! i) st
                      in (words_of_sector sd, blocks_l1, st'))
                else (let (r, st') = free_map_allocate st
                      in (junk, blocks_l1[i := stored r (blocks_l1 ! i)], st')));
             (b2, d1, st2, remain1) = grow_l2 (unat (double_l2_usage d)) blocks_l2 d st1 remain;
             st3 = block_write (fs_device st2) (b1 ! i) (sector_of_words b2) st2
         in grow_l1 junk (i + 1) b1 d1 st3 remain1)
      else (blocks_l1, d, st, remain))"
  by pat_completeness auto
termination
  by (relation "measure (\<lambda>(junk, i, b1, d, st, remain). 128 - i)") auto

declare grow_l1.simps [simp del]

text \<open>The \<open>while (remain_sectors > 0)\<close> loop, at most \<open>fuel\<close> turns of it.\<close>

fun grow_loop ::
  "nat \<Rightarrow> block_sector_t list \<Rightarrow> int \<Rightarrow> inode_disk \<Rightarrow> fs_state \<Rightarrow> stop + (inode_disk \<times> fs_state)" where
  "grow_loop fuel junk remain d st =
     (if remain > 0 then
        (case fuel of
           0 \<Rightarrow> Inl OutOfFuel
         | Suc fuel' \<Rightarrow>
             if direct_usage d < 10 then
               (let (r, st1) = free_map_allocate st;
                    d1 = d\<lparr>blocks := (blocks d)[unat (direct_usage d) :=
                                         stored r (blocks d ! unat (direct_usage d))]\<rparr>;
                    st2 = block_write (fs_device st1) (blocks d1 ! unat (direct_usage d1)) zeros st1;
                    d2 = d1\<lparr>direct_usage := direct_usage d1 + 1,
                            sector_usage := sector_usage d1 + 1\<rparr>
                in grow_loop fuel' junk (remain - 1) d2 st2)
             else if indirect_block_usage d < 128 then
               (let (blocks_indirect, d1, st1) =
                      (if indirect_block_usage d > 0
                       then (let (sd, st') = block_read (fs_device st) (blocks d ! 10) st
                             in (words_of_sector sd, d, st'))
                       else (let (r, st') = free_map_allocate st
                             in (junk, d\<lparr>blocks := (blocks d)[10 := stored r (blocks d ! 10)]\<rparr>, st')));
                    (bi, d2, st2, remain1) =
                      grow_indirect (unat (indirect_block_usage d1)) blocks_indirect d1 st1 remain;
                    st3 = block_write (fs_device st2) (blocks d2 ! 10) (sector_of_words bi) st2
                in grow_loop fuel' junk remain1 (d2\<lparr>indirect_used := 1\<rparr>) st3)
             else
               (let (blocks_l1, d1, st1) =
                      (if double_used d = 1
                       then (let (sd, st') = block_read (fs_device st) (blocks d ! 11) st
                             in (words_of_sector sd, d, st'))
                       else (let (r, st') = free_map_allocate st
                             in (junk, d\<lparr>blocks := (blocks d)[11 := stored r (blocks d ! 11)]\<rparr>, st')));
                    (b1, d2, st2, remain1) =
                      grow_l1 junk (unat (double_l1_usage d1)) blocks_l1 d1 st1 remain;
                    st3 = block_write (fs_device st2) (blocks d2 ! 11) (sector_of_words b1) st2
                in grow_loop fuel' junk remain1 (d2\<lparr>double_used := 1\<rparr>) st3))
      else Inr (d, st))"

declare grow_loop.simps [simp del]

definition inode_disk_grow ::
  "nat \<Rightarrow> block_sector_t list \<Rightarrow> inode_disk \<Rightarrow> fs_state \<Rightarrow> stop + (inode_disk \<times> fs_state)" where
  "inode_disk_grow fuel junk d st =
     grow_loop fuel junk
       (s32 (bytes_to_sectors (length_bytes d) - uint (sector_usage d))) d st"










subsection \<open>Creating, opening and closing\<close>

definition fresh_inode_disk :: inode_disk where
  "fresh_inode_disk =
     \<lparr>blocks = replicate 12 0, direct_usage = 0, indirect_used = 0, indirect_block_usage = 0,
      double_used = 0, double_l1_usage = 0, double_l2_usage = 0, sector_usage = 0,
      length_bytes = 0, magic = 0, is_dir = False, is_dir_pad = replicate 3 0, parent = 0,
      unused = replicate 105 0\<rparr>"

text \<open>Modelled from the spec: \<open>ROOT_DIR_SECTOR\<close> (filesys/filesys.h), sector 1.\<close>

definition ROOT_DIR_SECTOR :: block_sector_t where
  "ROOT_DIR_SECTOR = 1"

definition inode_create ::
  "nat \<Rightarrow> block_sector_t list \<Rightarrow> block_sector_t \<Rightarrow> int \<Rightarrow> bool \<Rightarrow> fs_state \<Rightarrow> stop + (bool \<times> fs_state)" where
  "inode_create fuel junk sec len isdir st =
     (if \<not> 0 \<le> len then Inl AssertFailed
      else
        (case malloc st of
           (False, st1) \<Rightarrow> Inr (False, st1)
         | (True, st1) \<Rightarrow>
             (let disk_inode = fresh_inode_disk\<lparr>length_bytes := len, magic := INODE_MAGIC,
                     direct_usage := 0, indirect_used := 0, indirect_block_usage := 0,
                     double_used := 0, double_l1_usage := 0, double_l2_usage := 0,
                     sector_usage := 0, is_dir := isdir, parent := ROOT_DIR_SECTOR\<rparr>
              in case inode_disk_grow fuel junk disk_inode st1 of
                   Inl e \<Rightarrow> Inl e
                 | Inr (d, st2) \<Rightarrow>
                     (case cache_write (fs_device st2) sec (bytes_of_inode_disk d) st2 of
                        Inl e \<Rightarrow> Inl e
                      | Inr st3 \<Rightarrow> Inr (True, free st3)))))"

text \<open>The scan of \<open>open_inodes\<close> in \<open>inode_open\<close>.\<close>

fun find_open :: "(nat \<Rightarrow> inode option) \<Rightarrow> nat list \<Rightarrow> block_sector_t \<Rightarrow> stop + nat option" where
  "find_open h [] s = Inr None"
| "find_open h (a # as) s =
     (case h a of
        None \<Rightarrow> Inl BadPointer
      | Some ino \<Rightarrow> if sector ino = s then Inr (Some a) else find_open h as s)"

definition inode_reopen :: "nat option \<Rightarrow> fs_state \<Rightarrow> stop + (nat option \<times> fs_state)" where
  "inode_reopen p st =
     (case p of
        None \<Rightarrow> Inr (None, st)
      | Some a \<Rightarrow>
          (case inode_heap st a of
             None \<Rightarrow> Inl BadPointer
           | Some ino \<Rightarrow>
               Inr (Some a, st\<lparr>inode_heap :=
                                 (inode_heap st)(a \<mapsto> ino\<lparr>open_cnt := s32 (open_cnt ino + 1)\<rparr>)\<rparr>)))"

definition inode_open :: "block_sector_t \<Rightarrow> fs_state \<Rightarrow> stop + (nat option \<times> fs_state)" where
  "inode_open s st =
     (case find_open (inode_heap st) (open_inodes st) s of
        Inl e \<Rightarrow> Inl e
      | Inr (Some a) \<Rightarrow> inode_reopen (Some a) st
      | Inr None \<Rightarrow>
          (case malloc st of
             (False, st1) \<Rightarrow> Inr (None, st1)
           | (True, st1) \<Rightarrow>
               (let a = next_addr st1;
                    st2 = st1\<lparr>next_addr := a + 1, open_inodes := a # open_inodes st1\<rparr>
                in case cache_read (fs_device st2) s st2 of
                     Inl e \<Rightarrow> Inl e
                   | Inr (buf, st3) \<Rightarrow>
                       Inr (Some a, st3\<lparr>inode_heap := (inode_heap st3)(a \<mapsto>
                              \<lparr>sector = s, open_cnt = 1, removed = False, deny_write_cnt = 0,
                               data = inode_disk_of_bytes buf\<rparr>)\<rparr>))))"


definition inode_remove :: "nat \<Rightarrow> fs_state \<Rightarrow> stop + fs_state" where
  "inode_remove a st =
     (case inode_heap st a of
        None \<Rightarrow> Inl AssertFailed
      | Some ino \<Rightarrow> Inr (st\<lparr>inode_heap := (inode_heap st)(a \<mapsto> ino\<lparr>removed := True\<rparr>)\<rparr>))"

definition inode_length :: "inode \<Rightarrow> int" where
  "inode_length ino = length_bytes (data ino)"

subsection \<open>Reading and writing\<close>

text \<open>
  The loop of \<open>inode_read_at\<close>. \<open>buffer\<close> is what has been stored into the caller's
  buffer so far (its first \<open>bytes_read\<close> bytes), \<open>bounce\<close> tells whether the bounce
  buffer has been allocated.
\<close>

function read_loop ::
  "inode \<Rightarrow> int \<Rightarrow> int \<Rightarrow> int \<Rightarrow> byte list \<Rightarrow> bool \<Rightarrow> fs_state
     \<Rightarrow> stop + (int \<times> byte list \<times> bool \<times> fs_state)" where
  "read_loop ino sz offset bytes_read buffer bounce st =
     (if sz > 0 then
        (case byte_to_sector ino offset st of
           Inl e \<Rightarrow> Inl e
         | Inr (sector_idx, st1) \<Rightarrow>
             (let sector_ofs = cmod offset BLOCK_SECTOR_SIZE;
                  inode_left = s32 (inode_length ino - offset);
                  sector_left = BLOCK_SECTOR_SIZE - sector_ofs;
                  min_left = (if inode_left < sector_left then inode_left else sector_left);
                  chunk_size = (if sz < min_left then sz else min_left)
              in if chunk_size \<le> 0 then Inr (bytes_read, buffer, bounce, st1)
                 else if sector_ofs = 0 \<and> chunk_size = BLOCK_SECTOR_SIZE then
                   (case cache_read (fs_device st1) sector_idx st1 of
                      Inl e \<Rightarrow> Inl e
                    | Inr (buf, st2) \<Rightarrow>
                        read_loop ino (sz - chunk_size) (s32 (offset + chunk_size))
                          (bytes_read + chunk_size) (buffer @ buf) bounce st2)
                 else
                   (case (if bounce then (True, st1) else malloc st1) of
                      (False, st2) \<Rightarrow> Inr (bytes_read, buffer, False, st2)
                    | (True, st2) \<Rightarrow>
                        (case cache_read (fs_device st2) sector_idx st2 of
                           Inl e \<Rightarrow> Inl e
                         | Inr (buf, st3) \<Rightarrow>
                             if sector_ofs < 0 then Inl OutOfBounds
                             else read_loop ino (sz - chunk_size) (s32 (offset + chunk_size))
                                    (bytes_read + chunk_size)
                                    (buffer @ take (nat chunk_size) (drop (nat sector_ofs) buf))
                                    True st3))))
      else Inr (bytes_read, buffer, bounce, st))"
  by pat_completeness auto
termination
  by (relation "measure (\<lambda>(ino, sz, offset, bytes_read, buffer, bounce, st). nat sz)")
     (auto split: if_splits)

declare read_loop.simps [simp del]

definition inode_read_at :: "nat \<Rightarrow> int \<Rightarrow> int \<Rightarrow> fs_state \<Rightarrow> stop + (int \<times> byte list \<times> fs_state)" where
  "inode_read_at a sz offset st =
     (if sz > 0 then
        (case inode_heap st a of
           None \<Rightarrow> Inl BadPointer
         | Some ino \<Rightarrow>
             (case read_loop ino sz offset 0 [] False st of
                Inl e \<Rightarrow> Inl e
              | Inr (bytes_read, buffer, bounce, st1) \<Rightarrow>
                  Inr (bytes_read, buffer, if bounce then free st1 else st1)))
      else Inr (0, [], st))"

text \<open>
  The loop of \<open>inode_write_at\<close>; \<open>buffer\<close> is the caller's buffer, read from
  \<open>bytes_written\<close> on.
\<close>

function write_loop ::
  "inode \<Rightarrow> byte list \<Rightarrow> int \<Rightarrow> int \<Rightarrow> int \<Rightarrow> bool \<Rightarrow> fs_state
     \<Rightarrow> stop + (int \<times> bool \<times> fs_state)" where
  "write_loop ino buffer sz offset bytes_written bounce st =
     (if sz > 0 then
        (case byte_to_sector ino offset st of
           Inl e \<Rightarrow> Inl e
         | Inr (sector_idx, st1) \<Rightarrow>
             (let sector_ofs = cmod offset BLOCK_SECTOR_SIZE;
                  inode_left = s32 (inode_length ino - offset);
                  sector_left = BLOCK_SECTOR_SIZE - sector_ofs;
                  min_left = (if inode_left < sector_left then inode_left else sector_left);
                  chunk_size = (if sz < min_left then sz else min_left)
              in if chunk_size \<le> 0 then Inr (bytes_written, bounce, st1)
                 else if sector_ofs = 0 \<and> chunk_size = BLOCK_SECTOR_SIZE then
                   (case cache_write (fs_device st1) sector_idx
                           (take 512 (drop (nat bytes_written) buffer)) st1 of
                      Inl e \<Rightarrow> Inl e
                    | Inr st2 \<Rightarrow>
                        write_loop ino buffer (sz - chunk_size) (s32 (offset + chunk_size))
                          (bytes_written + chunk_size) bounce st2)
                 else
                   (case (if bounce then (True, st1) else malloc st1) of
                      (False, st2) \<Rightarrow> Inr (bytes_written, False, st2)
                    | (True, st2) \<Rightarrow>
                        (case (if sector_ofs > 0 \<or> chunk_size < sector_left
                               then cache_read (fs_device st2) sector_idx st2
                               else Inr (zeros, st2)) of
                           Inl e \<Rightarrow> Inl e
                         | Inr (bnc, st3) \<Rightarrow>
                             if sector_ofs < 0 then Inl OutOfBounds
                             else
                               (case cache_write (fs_device st3) sector_idx
                                       (take (nat sector_ofs) bnc
                                        @ take (nat chunk_size) (drop (nat bytes_written) buffer)
                                        @ drop (nat sector_ofs + nat chunk_size) bnc) st3 of
                                  Inl e \<Rightarrow> Inl e
                                | Inr st4 \<Rightarrow>
                                    write_loop ino buffer (sz - chunk_size)
                                      (s32 (offset + chunk_size))
                                      (bytes_written + chunk_size) True st4)))))
      else Inr (bytes_written, bounce, st))"
  by pat_completeness auto
termination
  by (relation "measure (\<lambda>(ino, buffer, sz, offset, bytes_written, bounce, st). nat sz)")
     (auto split: if_splits)

declare write_loop.simps [simp del]

definition inode_write_at ::
  "nat \<Rightarrow> block_sector_t list \<Rightarrow> nat \<Rightarrow> byte list \<Rightarrow> int \<Rightarrow> int \<Rightarrow> fs_state \<Rightarrow> stop + (int \<times> fs_state)" where
  "inode_write_at fuel junk a buffer sz offset st =
     (case inode_heap st a of
        None \<Rightarrow> Inl BadPointer
      | Some ino \<Rightarrow>
          if deny_write_cnt ino \<noteq> 0 then Inr (0, st)
          else
            (case (if s32 (offset + sz) > inode_length ino
                   then (case inode_disk_grow fuel junk
                                ((data ino)\<lparr>length_bytes := s32 (offset + sz)\<rparr>) st of
                           Inl e \<Rightarrow> Inl e
                         | Inr (d, st1) \<Rightarrow>
                             Inr (ino\<lparr>data := d\<rparr>,
                                  st1\<lparr>inode_heap := (inode_heap st1)(a \<mapsto> ino\<lparr>data := d\<rparr>)\<rparr>))
                   else Inr (ino, st)) of
               Inl e \<Rightarrow> Inl e
             | Inr (ino1, st1) \<Rightarrow>
                 (case write_loop ino1 buffer sz offset 0 False st1 of
                    Inl e \<Rightarrow> Inl e
                  | Inr (bytes_written, bounce, st2) \<Rightarrow>
                      Inr (bytes_written, if bounce then free st2 else st2))))"

section \<open>Directories and paths\<close>

text \<open>
  The directory layer is modelled over what its reads deliver: \<open>dir_entries\<close> gives, for
  the inode at a sector, the directory entries that \<open>inode_read_at\<close> yields slot by slot,
  \<open>inode_isdir\<close> its \<open>is_dir\<close> flag and \<open>inode_removed\<close> its \<open>removed\<close> flag. An inode
  pointer is the sector of its inode and a \<open>struct dir *\<close> the sector of the inode it
  wraps (\<open>None\<close> for the null pointer); reference counts are not followed here, and
  \<open>malloc\<close> and \<open>calloc\<close> are taken to succeed. A thread has its current directory and
  the inodes of its open files.
\<close>

record dir_entry =
  inode_sector :: block_sector_t
  name :: string
  in_use :: bool

record fsys =
  dir_entries :: "block_sector_t \<Rightarrow> dir_entry list"
  inode_isdir :: "block_sector_t \<Rightarrow> bool"
  inode_removed :: "block_sector_t \<Rightarrow> bool"

record thread =
  cur_dir :: block_sector_t
  files :: "block_sector_t list"

text \<open>\<open>lookup\<close>: the first slot in use whose name is \<open>nm\<close>, with its slot number.\<close>

fun lookup_from :: "nat \<Rightarrow> dir_entry list \<Rightarrow> string \<Rightarrow> (dir_entry \<times> nat) option" where
  "lookup_from ofs [] nm = None"
| "lookup_from ofs (e # es) nm =
     (if in_use e \<and> nm = name e then Some (e, ofs) else lookup_from (ofs + 1) es nm)"

definition lookup :: "fsys \<Rightarrow> block_sector_t \<Rightarrow> string \<Rightarrow> (dir_entry \<times> nat) option" where
  "lookup fs dir nm = lookup_from 0 (dir_entries fs dir) nm"

definition dir_lookup :: "fsys \<Rightarrow> block_sector_t \<Rightarrow> string \<Rightarrow> block_sector_t option" where
  "dir_lookup fs dir nm =
     (case lookup fs dir nm of None \<Rightarrow> None | Some (e, ofs) \<Rightarrow> Some (inode_sector e))"

definition dir_remove :: "fsys \<Rightarrow> block_sector_t \<Rightarrow> string \<Rightarrow> bool \<times> fsys" where
  "dir_remove fs dir nm =
     (case lookup fs dir nm of
        None \<Rightarrow> (False, fs)
      | Some (e, ofs) \<Rightarrow>
          (True, fs\<lparr>dir_entries := (dir_entries fs)(dir := (dir_entries fs dir)[ofs := e\<lparr>in_use := False\<rparr>]),
                   inode_removed := (inode_removed fs)(inode_sector e := True)\<rparr>))"

definition dir_is_empty :: "fsys \<Rightarrow> block_sector_t \<Rightarrow> bool" where
  "dir_is_empty fs dir =
     list_all (\<lambda>e. \<not> (in_use e \<and> name e \<noteq> ''.'' \<and> name e \<noteq> ''..'')) (dir_entries fs dir)"

text \<open>
  The preprocessing of \<open>find_dir\<close>: a character is flagged when it and the one before it
  are both slashes, and the copy keeps the characters that are not flagged.
\<close>

definition remove_flagged :: "string \<Rightarrow> string" where
  "remove_flagged t =
     map (\<lambda>i. t ! i)
       (filter (\<lambda>i. \<not> (0 < i \<and> t ! (i - 1) = CHR ''/'' \<and> t ! i = CHR ''/'')) [0..<length t])"

text \<open>The tokens \<open>strtok_r\<close> delivers with the delimiter \<open>/\<close>; \<open>acc\<close> is the token begun.\<close>

fun tokens_from :: "string \<Rightarrow> string \<Rightarrow> string list" where
  "tokens_from acc [] = (if acc = [] then [] else [acc])"
| "tokens_from acc (c # cs) =
     (if c = CHR ''/''
      then (if acc = [] then tokens_from [] cs else acc # tokens_from [] cs)
      else tokens_from (acc @ [c]) cs)"

definition strtok_tokens :: "string \<Rightarrow> string list" where
  "strtok_tokens s = tokens_from [] s"

text \<open>
  The token loop of \<open>find_dir\<close>, with \<open>dir\<close>, \<open>*inode\<close>, \<open>last_name\<close> and \<open>not_found\<close>;
  it ends with the value \<open>find_dir\<close> returns from inside the loop (false) or with true when
  the tokens are used up.
\<close>

fun find_dir_loop ::
  "fsys \<Rightarrow> string list \<Rightarrow> block_sector_t option \<Rightarrow> block_sector_t \<Rightarrow> string \<Rightarrow> bool
     \<Rightarrow> stop + (bool \<times> block_sector_t \<times> string)" where
  "find_dir_loop fs [] dir ino last_name not_found = Inr (True, ino, last_name)"
| "find_dir_loop fs (token # rest) dir ino last_name not_found =
     (if not_found \<or> length token > NAME_MAX then Inr (False, ino, last_name)
      else
        (case dir of
           None \<Rightarrow> Inl BadPointer
         | Some d \<Rightarrow>
             (case dir_lookup fs d token of
                None \<Rightarrow> find_dir_loop fs rest None d token True
              | Some next_inode \<Rightarrow> find_dir_loop fs rest (Some next_inode) d token False)))"

definition find_dir ::
  "fsys \<Rightarrow> block_sector_t \<Rightarrow> string \<Rightarrow> string \<Rightarrow> stop + (bool \<times> block_sector_t \<times> string)" where
  "find_dir fs cwd path last_name =
     (let temp_name = take PATH_MAX path;
          nm = remove_flagged temp_name;
          start = (if nm \<noteq> [] \<and> hd nm = CHR ''/'' then ROOT_DIR_SECTOR else cwd)
      in case find_dir_loop fs (strtok_tokens nm) (Some start) start last_name False of
           Inl e \<Rightarrow> Inl e
         | Inr (False, ino, ln) \<Rightarrow> Inr (False, ino, ln)
         | Inr (True, ino, ln) \<Rightarrow>
             if path = [] then Inl OutOfBounds
             else Inr (True, ino, if last path = CHR ''/'' then ''.'' else ln))"

text \<open>
  \<open>filesys_remove\<close>, for the running thread \<open>t\<close>; \<open>buf\<close> is what the freshly allocated
  \<open>find_name\<close> holds.
\<close>

definition filesys_remove :: "fsys \<Rightarrow> thread \<Rightarrow> string \<Rightarrow> string \<Rightarrow> stop + (bool \<times> fsys)" where
  "filesys_remove fs t nm buf =
     (case find_dir fs (cur_dir t) nm buf of
        Inl e \<Rightarrow> Inl e
      | Inr (False, ino, find_name) \<Rightarrow> Inr (False, fs)
      | Inr (True, dir, find_name) \<Rightarrow>
          (case dir_lookup fs dir find_name of
             Some inode_new \<Rightarrow>
               if inode_isdir fs inode_new then
                 (if dir_is_empty fs inode_new then
                    (if list_ex (\<lambda>file. inode_isdir fs file \<and> file = cur_dir t) (files t)
                     then Inr (False, fs)
                     else Inr (True, snd (dir_remove fs dir find_name)))
                  else Inr (False, fs))
               else Inr (dir_remove fs dir find_name)
           | None \<Rightarrow> Inr (dir_remove fs dir find_name)))"

text \<open>
  What the walk of \<open>find_dir\<close> amounts to: the directory reached from \<open>d\<close> by looking the
  tokens up one after the other, if every one of them is found.
\<close>

fun resolve :: "fsys \<Rightarrow> block_sector_t \<Rightarrow> string list \<Rightarrow> block_sector_t option" where
  "resolve fs d [] = Some d"
| "resolve fs d (t # ts) =
     (case dir_lookup fs d t of None \<Rightarrow> None | Some d' \<Rightarrow> resolve fs d' ts)"

definition path_tokens :: "string \<Rightarrow> string list" where
  "path_tokens p = strtok_tokens (remove_flagged (take PATH_MAX p))"

definition path_start :: "block_sector_t \<Rightarrow> string \<Rightarrow> block_sector_t" where
  "path_start cwd p = (if p \<noteq> [] \<and> hd p = CHR ''/'' then ROOT_DIR_SECTOR else cwd)"

text \<open>A call of \<open>find_dir\<close> that ends with the return value false.\<close>

definition returns_false :: "stop + (bool \<times> block_sector_t \<times> string) \<Rightarrow> bool" where
  "returns_false r = (case r of Inr (False, ino, ln) \<Rightarrow> True | _ \<Rightarrow> False)"

text \<open>
  An example tree: the root directory (sector 1) holds \<open>.\<close>, \<open>..\<close> and the empty
  directory \<open>d\<close> (sector 7); a thread whose current directory is the root and that holds
  \<open>d\<close> open.
\<close>

definition example_fs :: fsys where
  "example_fs =
     \<lparr>dir_entries = (\<lambda>s.
         if s = 1 then [\<lparr>inode_sector = 1, name = ''.'', in_use = True\<rparr>,
                        \<lparr>inode_sector = 1, name = ''..'', in_use = True\<rparr>,
                        \<lparr>inode_sector = 7, name = ''d'', in_use = True\<rparr>]
         else if s = 7 then [\<lparr>inode_sector = 7, name = ''.'', in_use = True\<rparr>,
                             \<lparr>inode_sector = 1, name = ''..'', in_use = True\<rparr>]
         else []),
      inode_isdir = (\<lambda>s. s = 1 \<or> s = 7),
      inode_removed = (\<lambda>s. False)\<rparr>"

definition example_thread :: thread where
  "example_thread = \<lparr>cur_dir = 1, files = [7]\<rparr>"

section \<open>Initial states\<close>

text \<open>
  What \<open>cache_init\<close> and \<open>inode_init\<close> leave: every cache line zeroed by \<open>calloc\<close> with
  its semaphore at 1, an empty read-ahead buffer and an empty list of open inodes. The
  device \<open>dev\<close> has \<open>n\<close> zeroed sectors, of which the free map marks the first \<open>used\<close>
  as in use.
\<close>

definition calloc_line :: cache_block where
  "calloc_line =
     \<lparr>dirty = False, valid = False, disk_sector = 0, time = 0, sema = 1, block = 0,
      disk_data = zeros\<rparr>"

definition init_state :: "nat \<Rightarrow> nat \<Rightarrow> nat \<Rightarrow> fs_state" where
  "init_state dev n used =
     \<lparr>fs_device = dev, dev_data = (\<lambda>b s. zeros), dev_size = (\<lambda>b. n), io_log = [], ticks = 0,
      cache = replicate CACHE_SIZE calloc_line,
      read_head_buffer = replicate READ_AHEAD_BUFFER_SIZE \<lparr>elem_sector = 0, elem_block = 0\<rparr>,
      read_head_buffer_n = 0,
      free_map = replicate used True @ replicate (n - used) False,
      mem_left = 1000, next_addr = 0, inode_heap = (\<lambda>a. None), open_inodes = []\<rparr>"

text \<open>
  An example: an open file of 100000 bytes whose indirect block is sector 10 and whose
  doubly-indirect block is sector 11; the first level-2 block is sector 12 and its second
  entry is sector 77.
\<close>

definition example_disk :: "block_sector_t \<Rightarrow> sector_data" where
  "example_disk s =
     (if s = 11 then sector_of_words (12 # replicate 127 0)
      else if s = 12 then sector_of_words ([20, 77] @ replicate 126 0)
      else zeros)"

definition example_inode :: inode where
  "example_inode =
     \<lparr>sector = 5, open_cnt = 1, removed = False, deny_write_cnt = 0,
      data = fresh_inode_disk\<lparr>blocks := [30, 31, 32, 33, 34, 35, 36, 37, 38, 39, 10, 11],
               length_bytes := 100000, magic := INODE_MAGIC\<rparr>\<rparr>"

definition example_state :: fs_state where
  "example_state =
     (init_state 1 4096 100)\<lparr>dev_data := (\<lambda>b. example_disk),
        inode_heap := [0 \<mapsto> example_inode], open_inodes := [0], next_addr := 1\<rparr>"

section \<open>Notions used in the statements\<close>

text \<open>
  The cache with line \<open>e\<close> held (its semaphore down) and every other line as it was;
  \<open>None\<close> holds no line. All lines are free when every semaphore is at 1.
\<close>

definition acquired :: "nat option \<Rightarrow> cache_block list \<Rightarrow> cache_block list" where
  "acquired e c = (case e of None \<Rightarrow> c | Some i \<Rightarrow> c[i := (c ! i)\<lparr>sema := 0\<rparr>])"

definition lines_free :: "fs_state \<Rightarrow> bool" where
  "lines_free st =
     (length (cache st) = CACHE_SIZE \<and> list_all (\<lambda>l. sema l = 1) (cache st))"

text \<open>The requests waiting in the read-ahead buffer, oldest first.\<close>

definition pending :: "fs_state \<Rightarrow> read_head_elem list" where
  "pending st = take (unat (read_head_buffer_n st)) (read_head_buffer st)"

definition buffer_ok :: "fs_state \<Rightarrow> bool" where
  "buffer_ok st =
     (length (read_head_buffer st) = READ_AHEAD_BUFFER_SIZE
      \<and> unat (read_head_buffer_n st) \<le> READ_AHEAD_BUFFER_SIZE)"

text \<open>
  Two states that differ at most in the cache, the device contents and the device log:
  what the cache functions other than the read-ahead producer may change.
\<close>

definition cache_frame :: "fs_state \<Rightarrow> fs_state \<Rightarrow> bool" where
  "cache_frame st st' =
     (fs_device st' = fs_device st \<and> dev_size st' = dev_size st \<and> ticks st' = ticks st
      \<and> read_head_buffer st' = read_head_buffer st
      \<and> read_head_buffer_n st' = read_head_buffer_n st
      \<and> free_map st' = free_map st \<and> mem_left st' = mem_left st
      \<and> next_addr st' = next_addr st \<and> inode_heap st' = inode_heap st
      \<and> open_inodes st' = open_inodes st)"

text \<open>
  What the scan of \<open>choose_evict\<close> from line \<open>k\<close> on establishes: either it returned at
  the first invalid line, or every line is valid and the candidate is the first line with
  the smallest time among those below \<open>earliest\<close>, if there is one.
\<close>

definition scan_post :: "cache_block list \<Rightarrow> nat \<Rightarrow> nat option \<Rightarrow> int \<Rightarrow> scan \<Rightarrow> bool" where
  "scan_post c k evict earliest r =
     (case r of
        Returned i \<Rightarrow>
          k \<le> i \<and> i < CACHE_SIZE \<and> \<not> valid (c ! i) \<and> (\<forall>j. k \<le> j \<and> j < i \<longrightarrow> valid (c ! j))
      | Scanned ev \<Rightarrow>
          (\<forall>j. k \<le> j \<and> j < CACHE_SIZE \<longrightarrow> valid (c ! j)) \<and>
          ((ev = evict \<and> (\<forall>j. k \<le> j \<and> j < CACHE_SIZE \<longrightarrow> earliest \<le> time (c ! j))) \<or>
           (\<exists>e. ev = Some e \<and> k \<le> e \<and> e < CACHE_SIZE \<and> time (c ! e) < earliest
              \<and> (\<forall>j. k \<le> j \<and> j < CACHE_SIZE \<longrightarrow> time (c ! e) \<le> time (c ! j))
              \<and> (\<forall>j. k \<le> j \<and> j < e \<longrightarrow> time (c ! e) < time (c ! j)))))"

definition sel :: "scan \<Rightarrow> nat option" where
  "sel r = (case r of Returned i \<Rightarrow> Some i | Scanned ev \<Rightarrow> ev)"

text \<open>
  A line caches sector \<open>s\<close> of device \<open>b\<close>; the contents of that sector as the cache
  presents them (the first line that caches it, else the device); and a cache on which a
  read of that sector can complete: every line free, room in the read-ahead buffer, and
  either a line that caches the sector or a line that \<open>choose_evict\<close> can select.
\<close>

definition hit :: "nat \<Rightarrow> block_sector_t \<Rightarrow> cache_block \<Rightarrow> bool" where
  "hit b s l = (valid l \<and> block l = b \<and> disk_sector l = s)"

definition sector_view :: "nat \<Rightarrow> block_sector_t \<Rightarrow> fs_state \<Rightarrow> sector_data" where
  "sector_view b s st =
     (case find (hit b s) (cache st) of Some l \<Rightarrow> disk_data l | None \<Rightarrow> dev_data st b s)"

definition cache_ready :: "nat \<Rightarrow> block_sector_t \<Rightarrow> fs_state \<Rightarrow> bool" where
  "cache_ready b s st =
     (lines_free st \<and> unat (read_head_buffer_n st) < READ_AHEAD_BUFFER_SIZE
      \<and> (list_ex (hit b s) (cache st)
         \<or> list_ex (\<lambda>l. \<not> valid l \<or> time l < ticks st) (cache st)))"

text \<open>
  A cache on which the consumer can serve the request \<open>el\<close>: every line free, and the
  request lies past the end of its device (nothing is read then), or a line caches its
  sector, or there is a line that \<open>choose_evict\<close> can select.
\<close>

definition request_ready :: "read_head_elem \<Rightarrow> fs_state \<Rightarrow> bool" where
  "request_ready el st =
     (lines_free st
      \<and> (block_size (elem_block el) st \<le> unat (elem_sector el)
         \<or> list_ex (hit (elem_block el) (elem_sector el)) (cache st)
         \<or> list_ex (\<lambda>l. \<not> valid l \<or> time l < ticks st) (cache st)))"

text \<open>
  The registry of open inodes is well formed: the list has no address twice, the live
  inode objects are exactly the listed ones, no two of them have the same sector, and
  every address in use lies below the next one the allocator hands out.
\<close>

definition inodes_ok :: "fs_state \<Rightarrow> bool" where
  "inodes_ok st =
     (distinct (open_inodes st)
      \<and> dom (inode_heap st) = set (open_inodes st)
      \<and> distinct (map (\<lambda>a. sector (the (inode_heap st a))) (open_inodes st))
      \<and> list_all (\<lambda>a. a < next_addr st) (open_inodes st))"

definition is_open :: "block_sector_t \<Rightarrow> fs_state \<Rightarrow> bool" where
  "is_open s st = list_ex (\<lambda>a. sector (the (inode_heap st a)) = s) (open_inodes st)"




text \<open>
  A read-ahead buffer with two pending requests: sector 5000, which is past the end of the
  device, was requested first, then sector 8.
\<close>

definition queued_state :: fs_state where
  "queued_state =
     (init_state 1 4096 100)\<lparr>read_head_buffer :=
        (replicate READ_AHEAD_BUFFER_SIZE \<lparr>elem_sector = 0, elem_block = 0\<rparr>)
          [0 := \<lparr>elem_sector = 5000, elem_block = 1\<rparr>, 1 := \<lparr>elem_sector = 8, elem_block = 1\<rparr>],
        read_head_buffer_n := 2\<rparr>"

text \<open>The disk inode that \<open>inode_create\<close> sets up for a file of 1024 bytes.\<close>

definition create_inode0 :: inode_disk where
  "create_inode0 = fresh_inode_disk\<lparr>length_bytes := 1024, magic := INODE_MAGIC,
                     direct_usage := 0, indirect_used := 0, indirect_block_usage := 0,
                     double_used := 0, double_l1_usage := 0, double_l2_usage := 0,
                     sector_usage := 0, is_dir := False, parent := ROOT_DIR_SECTOR\<rparr>"

text \<open>
  A device whose free map has no free sector, with one open file: an empty file as
  \<open>inode_create\<close> leaves it (length 0, every block pointer 0), open once.
\<close>

definition empty_file :: inode where
  "empty_file =
     \<lparr>sector = 50, open_cnt = 1, removed = False, deny_write_cnt = 0,
      data = fresh_inode_disk\<lparr>magic := INODE_MAGIC, parent := ROOT_DIR_SECTOR\<rparr>\<rparr>"

definition full_disk_state :: fs_state where
  "full_disk_state =
     (init_state 1 101 101)\<lparr>inode_heap := [0 \<mapsto> empty_file], open_inodes := [0],
        next_addr := 1\<rparr>"

text \<open>
  The inode that \<open>inode_create\<close> sets up in sector 50 for a file of 2147483647 bytes, the
  largest \<open>off_t\<close>, open once: the sector count overflows to a negative number, so that no
  sector is allocated and every block pointer is 0.
\<close>

definition huge_file :: inode where
  "huge_file =
     \<lparr>sector = 50, open_cnt = 1, removed = False, deny_write_cnt = 0,
      data = fresh_inode_disk\<lparr>length_bytes := 2147483647, magic := INODE_MAGIC,
               parent := ROOT_DIR_SECTOR\<rparr>\<rparr>"

section \<open>Properties\<close>

subsection \<open>Arithmetic and encoding\<close>

lemma cdiv_nonneg: "0 \<le> a \<Longrightarrow> 0 < b \<Longrightarrow> cdiv a b = a div b"
  by (cases "a = 0") (auto simp: cdiv_def sgn_if)

lemma cmod_nonneg: "0 \<le> a \<Longrightarrow> 0 < b \<Longrightarrow> cmod a b = a mod b"
  by (simp add: cmod_def cdiv_nonneg minus_mult_div_eq_mod)

lemma s32_id: "- (2 ^ 31) \<le> x \<Longrightarrow> x < 2 ^ 31 \<Longrightarrow> s32 x = x"
  by (simp add: s32_def)

lemma cmod_lt: "cmod x 512 < 512"
proof (cases "0 \<le> x")
  case True
  then have "cmod x 512 = x mod 512"
    by (cases "x = 0") (simp_all add: cmod_def cdiv_def minus_mult_div_eq_mod)
  then show ?thesis by simp
next
  case False
  then have "cmod x 512 = - ((- x) mod 512)"
    by (simp add: cmod_def cdiv_def flip: minus_mult_div_eq_mod)
  then show ?thesis by simp
qed

lemma upt4: "[0..<4] = [0, 1, 2, 3]"
  by (simp add: upt_rec)

lemma le32_bytes_of_u32: "le32 (bytes_of_u32 w) = w"
proof (rule bit_word_eqI)
  fix n assume "n < LENGTH(32)"
  then have n: "n < 32" by simp
  then consider "n < 8" | "8 \<le> n" "n < 16" | "16 \<le> n" "n < 24" | "24 \<le> n" "n < 32"
    by linarith
  then show "bit (le32 (bytes_of_u32 w)) n = bit w n"
    by cases (auto simp: le32_def bytes_of_u32_def upt4 bit_simps)
qed

lemma length_bytes_of_u32: "length (bytes_of_u32 w) = 4"
  by (simp add: bytes_of_u32_def)

lemma drop_sector_of_words:
  "k \<le> length ws \<Longrightarrow> drop (4 * k) (sector_of_words ws) = sector_of_words (drop k ws)"
proof (induction ws arbitrary: k)
  case Nil
  then show ?case by (simp add: sector_of_words_def)
next
  case (Cons w ws)
  show ?case
  proof (cases k)
    case 0
    then show ?thesis by simp
  next
    case (Suc j)
    with Cons show ?thesis
      by (simp add: sector_of_words_def length_bytes_of_u32)
  qed
qed

lemma u32_at_sector_of_words: "k < length ws \<Longrightarrow> u32_at (sector_of_words ws) k = ws ! k"
proof -
  assume k: "k < length ws"
  then have "drop k ws = ws ! k # drop (Suc k) ws"
    by (simp add: Cons_nth_drop_Suc)
  moreover have "drop (4 * k) (sector_of_words ws) = sector_of_words (drop k ws)"
    using k by (simp add: drop_sector_of_words)
  ultimately have "take 4 (drop (4 * k) (sector_of_words ws)) = bytes_of_u32 (ws ! k)"
    by (simp add: sector_of_words_def length_bytes_of_u32)
  then show ?thesis by (simp add: u32_at_def le32_bytes_of_u32)
qed

lemma words_of_sector_of_words: "length ws = 128 \<Longrightarrow> words_of_sector (sector_of_words ws) = ws"
  by (rule nth_equalityI) (simp_all add: words_of_sector_def u32_at_sector_of_words)


subsection \<open>Byte offset to sector\<close>

text \<open>
  For every inode and every byte offset \<open>p\<close> (from 0 on): when \<open>p\<close> is not below the
  length, \<open>byte_to_sector\<close> reports out of range (-1) and reads nothing; when
  \<open>p < 10 S\<close> it returns \<open>blocks[p / S]\<close>; when \<open>10 S \<le> p < (10 + 128) S\<close> it reads the
  indirect block stored at \<open>blocks[10]\<close> and returns its entry \<open>(p - 10 S) / S\<close>;
  otherwise, with \<open>q = p - (10 + 128) S\<close>, it reads the level-1 block stored at
  \<open>blocks[11]\<close>, then the level-2 block found at its entry \<open>q / (128 S)\<close>, and returns the
  entry \<open>(q mod 128 S) / S\<close> of that block. An entry number from 128 on is outside the
  128 entries of the level-1 block: the read is out of bounds.
\<close>

lemma byte_to_sector_mapping:
  assumes "0 \<le> p"
  shows "byte_to_sector ino p st =
    (if length_bytes (data ino) \<le> p then Inr (- 1, st)
     else if p < 10 * BLOCK_SECTOR_SIZE then
       Inr (blocks (data ino) ! nat (p div BLOCK_SECTOR_SIZE), st)
     else if p < (10 + 128) * BLOCK_SECTOR_SIZE then
       Inr (words_of_sector (dev_data st (fs_device st) (blocks (data ino) ! 10))
              ! nat ((p - 10 * BLOCK_SECTOR_SIZE) div BLOCK_SECTOR_SIZE),
            st\<lparr>io_log := io_log st @ [BlockRead (fs_device st) (blocks (data ino) ! 10)]\<rparr>)
     else
       (let q = p - (10 + 128) * BLOCK_SECTOR_SIZE;
            l1 = words_of_sector (dev_data st (fs_device st) (blocks (data ino) ! 11));
            l2 = words_of_sector (dev_data st (fs_device st) (l1 ! nat (q div (128 * BLOCK_SECTOR_SIZE))))
        in if q div (128 * BLOCK_SECTOR_SIZE) < 128 then
             Inr (l2 ! nat (q mod (128 * BLOCK_SECTOR_SIZE) div BLOCK_SECTOR_SIZE),
                  st\<lparr>io_log := io_log st @ [BlockRead (fs_device st) (blocks (data ino) ! 11),
                         BlockRead (fs_device st) (l1 ! nat (q div (128 * BLOCK_SECTOR_SIZE)))]\<rparr>)
           else Inl OutOfBounds))"
proof -
  have S: "BLOCK_SECTOR_SIZE = 512" by (simp add: BLOCK_SECTOR_SIZE_def)
  show ?thesis
  proof (cases "length_bytes (data ino) \<le> p")
    case True
    then show ?thesis by (simp add: byte_to_sector_def)
  next
    case lt: False
    show ?thesis
    proof (cases "p < 5120")
      case True
      have "0 \<le> p div 512" using assms by simp
      with True lt assms show ?thesis
        by (simp add: byte_to_sector_def S cdiv_nonneg)
    next
      case ge: False
      show ?thesis
      proof (cases "p < 70656")
        case True
        with ge lt assms show ?thesis
          by (simp add: byte_to_sector_def S cdiv_nonneg block_read_def)
      next
        case False
        then have q: "0 \<le> p - 70656" by simp
        have m: "0 \<le> (p - 70656) mod 65536" by simp
        have d: "0 \<le> (p - 70656) div 65536" using q by simp
        have k: "(128 \<le> nat ((p - 70656) div 65536)) = (\<not> (p - 70656) div 65536 < 128)"
          using d by arith
        from False ge lt assms q show ?thesis
          by (simp add: byte_to_sector_def S cdiv_nonneg cmod_nonneg block_read_def Let_def m k)
      qed
    qed
  qed
qed


lemma byte_to_sector_example:
  "(0::int) \<le> 71168 \<and>
   byte_to_sector example_inode 71168 example_state =
     Inr (77, example_state\<lparr>io_log := [BlockRead 1 11, BlockRead 1 12]\<rparr>)"
  using byte_to_sector_mapping [of 71168 example_inode example_state]
  by (simp add: example_inode_def example_state_def example_disk_def init_state_def
        BLOCK_SECTOR_SIZE_def words_of_sector_of_words Let_def)

subsection \<open>Reading at or past the end\<close>

text \<open>
  C9. For an open inode (of non-negative length, as \<open>inode_create\<close> asserts) and an
  \<open>off_t\<close> offset, \<open>inode_read_at\<close> with the offset at or past the length, or with
  \<open>size \<le> 0\<close>, returns 0, stores nothing in the buffer and leaves the whole state as it
  was: no cache line is touched, no request is queued and no \<open>block_read\<close> is logged.
  When \<open>size > 0\<close> the loop has called \<open>byte_to_sector\<close>, which returned -1 without
  reading, before its bounds check broke out.
\<close>

theorem inode_read_at_past_end:
  assumes "inode_heap st a = Some ino"
    and "0 \<le> length_bytes (data ino)"
    and "offset < 2 ^ 31"
    and "length_bytes (data ino) \<le> offset \<or> sz \<le> 0"
  shows "inode_read_at a sz offset st = Inr (0, [], st)
     \<and> (0 < sz \<longrightarrow> byte_to_sector ino offset st = Inr (- 1, st))"
proof (cases "0 < sz")
  case False
  then show ?thesis by (simp add: inode_read_at_def)
next
  case True
  with assms have le: "length_bytes (data ino) \<le> offset" by simp
  have b: "byte_to_sector ino offset st = Inr (- 1, st)"
    using le by (simp add: byte_to_sector_def)
  have il: "s32 (inode_length ino - offset) \<le> 0"
    using le assms(2,3) by (simp add: s32_id inode_length_def)
  have sl: "0 < BLOCK_SECTOR_SIZE - cmod offset BLOCK_SECTOR_SIZE"
    using cmod_lt [of offset] by (simp add: BLOCK_SECTOR_SIZE_def)
  have "read_loop ino sz offset 0 [] False st = Inr (0, [], False, st)"
    using True b il sl by (subst read_loop.simps) (simp add: Let_def)
  with True assms(1) b show ?thesis by (simp add: inode_read_at_def)
qed

theorem inode_read_at_past_end_witness:
  "inode_read_at 0 10 100000 example_state = Inr (0, [], example_state)
   \<and> byte_to_sector example_inode 100000 example_state = Inr (- 1, example_state)"
  using inode_read_at_past_end [of example_state 0 example_inode 100000 10]
  by (simp add: example_inode_def example_state_def)

subsection \<open>The scan of the cache lines\<close>

lemma lines_free_nth: "lines_free st \<Longrightarrow> k < CACHE_SIZE \<Longrightarrow> sema (cache st ! k) = 1"
  by (simp add: lines_free_def list_all_length)

lemma sema_restore: "sema l = Suc 0 \<Longrightarrow> l\<lparr>sema := Suc 0\<rparr> = l"
  by simp

lemma upd_restore:
  assumes "e \<noteq> k"
  shows "c[e := y, k := x, e := c ! e] = c[k := x]"
proof (rule nth_equalityI)
  show "length (c[e := y, k := x, e := c ! e]) = length (c[k := x])" by simp
next
  fix i assume "i < length (c[e := y, k := x, e := c ! e])"
  then have "i < length c" by simp
  then show "c[e := y, k := x, e := c ! e] ! i = c[k := x] ! i"
    using assms by (cases "i = e"; cases "i = k") auto
qed

lemma upd_undo: "c[k := y, k := c ! k] = c"
  by (simp add: list_update_id)

lemma upd_undo2:
  assumes "e \<noteq> k"
  shows "c[e := z, k := y, k := c ! k] = c[e := z]"
proof (rule nth_equalityI)
  show "length (c[e := z, k := y, k := c ! k]) = length (c[e := z])" by simp
next
  fix i assume "i < length (c[e := z, k := y, k := c ! k])"
  then have "i < length c" by simp
  then show "c[e := z, k := y, k := c ! k] ! i = c[e := z] ! i"
    using assms by (cases "i = e"; cases "i = k") auto
qed

lemma upd_undo3:
  assumes "e \<noteq> k"
  shows "c[e := z, k := c ! k] = c[e := z]"
proof -
  have "c[e := z, k := c ! k] = c[e := z, k := c[e := z] ! k]" using assms by simp
  then show ?thesis by (simp only: list_update_id)
qed

lemma all_from:
  "(\<forall>j. k \<le> j \<and> j < n \<longrightarrow> P j) = ((k < n \<longrightarrow> P k) \<and> (\<forall>j. Suc k \<le> j \<and> j < n \<longrightarrow> P j))"
proof -
  have "\<And>j. (k \<le> j) = (j = k \<or> Suc k \<le> j)" by arith
  then show ?thesis by auto
qed

lemma scan_post_keep:
  assumes "valid (c ! k)" "\<not> time (c ! k) < earliest" "scan_post c (Suc k) evict earliest r"
  shows "scan_post c k evict earliest r"
proof (cases r)
  case (Returned i)
  with assms show ?thesis
    by (simp add: scan_post_def all_from [of k])
next
  case (Scanned ev)
  with assms show ?thesis
    unfolding scan_post_def
    by (simp add: all_from [of k]) (use order_trans in force)
qed

lemma scan_post_take:
  assumes "valid (c ! k)" "time (c ! k) < earliest" "k < CACHE_SIZE"
    "scan_post c (Suc k) (Some k) (time (c ! k)) r"
  shows "scan_post c k evict earliest r"
proof (cases r)
  case (Returned i)
  with assms show ?thesis
    by (simp add: scan_post_def all_from [of k])
next
  case (Scanned ev)
  with assms show ?thesis
    unfolding scan_post_def
    by (simp add: all_from [of k]) (use order_trans in force)
qed

lemma choose_evict_from_scan:
  assumes "lines_free st0"
  shows "k \<le> CACHE_SIZE \<Longrightarrow> (case evict of None \<Rightarrow> True | Some e \<Rightarrow> e < k) \<Longrightarrow>
    \<exists>r. choose_evict_from k evict earliest (st0\<lparr>cache := acquired evict (cache st0)\<rparr>)
           = Inr (r, st0\<lparr>cache := acquired (sel r) (cache st0)\<rparr>)
        \<and> scan_post (cache st0) k evict earliest r"
proof (induction "CACHE_SIZE - k" arbitrary: k evict earliest)
  case 0
  then have "k = CACHE_SIZE" by simp
  then show ?case
    by (subst choose_evict_from.simps) (auto simp: sel_def scan_post_def)
next
  case (Suc n)
  then have k: "k < CACHE_SIZE" by simp
  let ?c = "cache st0"
  have len: "length ?c = CACHE_SIZE" using assms by (simp add: lines_free_def)
  have sk: "sema (?c ! k) = 1" using assms k by (rule lines_free_nth)
  have ek: "\<And>e. evict = Some e \<Longrightarrow> e < k \<and> e < length ?c \<and> sema (?c ! e) = 1"
    using Suc.prems(2) k len lines_free_nth [OF assms] by auto
  have down: "sema_down k (st0\<lparr>cache := acquired evict ?c\<rparr>)
       = Inr (st0\<lparr>cache := (acquired evict ?c)[k := (?c ! k)\<lparr>sema := 0\<rparr>]\<rparr>)"
    using sk k len ek by (auto simp: sema_down_def line_upd_def acquired_def split: option.splits)
  have nk: "(acquired evict ?c)[k := (?c ! k)\<lparr>sema := 0\<rparr>] ! k = (?c ! k)\<lparr>sema := 0\<rparr>"
    using k len by (auto simp: acquired_def split: option.splits)
  have rel: "sema_up_opt evict (st0\<lparr>cache := (acquired evict ?c)[k := (?c ! k)\<lparr>sema := 0\<rparr>]\<rparr>)
       = st0\<lparr>cache := acquired (Some k) ?c\<rparr>"
    using ek k len
    by (auto simp: sema_up_opt_def sema_up_def line_upd_def acquired_def sema_restore upd_restore
          split: option.splits)
  show ?case
  proof (cases "valid (?c ! k)")
    case False
    have "choose_evict_from k evict earliest (st0\<lparr>cache := acquired evict ?c\<rparr>)
        = Inr (Returned k, st0\<lparr>cache := acquired (Some k) ?c\<rparr>)"
      using k False by (subst choose_evict_from.simps) (simp add: down nk rel)
    moreover have "scan_post ?c k evict earliest (Returned k)"
      using k False by (auto simp: scan_post_def)
    ultimately show ?thesis by (auto simp: sel_def)
  next
    case True
    show ?thesis
    proof (cases "time (?c ! k) < earliest")
      case lt: True
      have step: "choose_evict_from k evict earliest (st0\<lparr>cache := acquired evict ?c\<rparr>)
          = choose_evict_from (k + 1) (Some k) (time (?c ! k)) (st0\<lparr>cache := acquired (Some k) ?c\<rparr>)"
        using k True lt by (subst choose_evict_from.simps) (simp add: down nk rel)
      have "\<exists>r. choose_evict_from (k + 1) (Some k) (time (?c ! k)) (st0\<lparr>cache := acquired (Some k) ?c\<rparr>)
           = Inr (r, st0\<lparr>cache := acquired (sel r) ?c\<rparr>)
          \<and> scan_post ?c (k + 1) (Some k) (time (?c ! k)) r"
        using Suc.hyps(2) k by (intro Suc.hyps(1)) simp_all
      then obtain r where r: "choose_evict_from (k + 1) (Some k) (time (?c ! k)) (st0\<lparr>cache := acquired (Some k) ?c\<rparr>)
           = Inr (r, st0\<lparr>cache := acquired (sel r) ?c\<rparr>)"
          and p: "scan_post ?c (k + 1) (Some k) (time (?c ! k)) r" by blast
      have "scan_post ?c k evict earliest r"
        by (rule scan_post_take [OF True lt k]) (use p in simp)
      with step r show ?thesis by auto
    next
      case ge: False
      have up: "sema_up k (st0\<lparr>cache := (acquired evict ?c)[k := (?c ! k)\<lparr>sema := 0\<rparr>]\<rparr>)
          = st0\<lparr>cache := acquired evict ?c\<rparr>"
        using sk k len ek
        by (auto simp: sema_up_def line_upd_def acquired_def sema_restore upd_undo upd_undo2 upd_undo3
              split: option.splits)
      have step: "choose_evict_from k evict earliest (st0\<lparr>cache := acquired evict ?c\<rparr>)
          = choose_evict_from (k + 1) evict earliest (st0\<lparr>cache := acquired evict ?c\<rparr>)"
        using k True ge by (subst choose_evict_from.simps) (simp add: down nk up)
      have "\<exists>r. choose_evict_from (k + 1) evict earliest (st0\<lparr>cache := acquired evict ?c\<rparr>)
           = Inr (r, st0\<lparr>cache := acquired (sel r) ?c\<rparr>)
          \<and> scan_post ?c (k + 1) evict earliest r"
        using Suc.hyps(2) k Suc.prems(2) by (intro Suc.hyps(1)) (auto split: option.splits)
      then obtain r where r: "choose_evict_from (k + 1) evict earliest (st0\<lparr>cache := acquired evict ?c\<rparr>)
           = Inr (r, st0\<lparr>cache := acquired (sel r) ?c\<rparr>)"
          and p: "scan_post ?c (k + 1) evict earliest r" by blast
      have "scan_post ?c k evict earliest r"
        by (rule scan_post_keep [OF True ge]) (use p in simp)
      with step r show ?thesis by auto
    qed
  qed
qed



lemma choose_evict_result:
  assumes "lines_free st"
    and "(\<exists>k<CACHE_SIZE. \<not> valid (cache st ! k)) \<or> (\<exists>k<CACHE_SIZE. time (cache st ! k) < ticks st)"
  shows "\<exists>e<CACHE_SIZE.
     choose_evict st =
       Inr (e, if valid (cache st ! e) \<and> dirty (cache st ! e)
               then block_write (block (cache st ! e)) (disk_sector (cache st ! e))
                      (disk_data (cache st ! e)) (st\<lparr>cache := acquired (Some e) (cache st)\<rparr>)
               else st\<lparr>cache := acquired (Some e) (cache st)\<rparr>)
     \<and> (if \<exists>k<CACHE_SIZE. \<not> valid (cache st ! k)
        then \<not> valid (cache st ! e) \<and> (\<forall>k<e. valid (cache st ! k))
        else (\<forall>k<CACHE_SIZE. time (cache st ! e) \<le> time (cache st ! k))
             \<and> (\<forall>k<e. time (cache st ! e) < time (cache st ! k)))"
proof -
  have len: "length (cache st) = CACHE_SIZE" using assms(1) by (simp add: lines_free_def)
  from choose_evict_from_scan [OF assms(1), of 0 None "ticks st"]
  obtain r where r: "choose_evict_from 0 None (ticks st) st = Inr (r, st\<lparr>cache := acquired (sel r) (cache st)\<rparr>)"
    and p: "scan_post (cache st) 0 None (ticks st) r"
    by (auto simp: acquired_def)
  show ?thesis
  proof (cases r)
    case (Returned i)
    with p have i: "i < CACHE_SIZE" "\<not> valid (cache st ! i)" "\<forall>j<i. valid (cache st ! j)"
      by (auto simp: scan_post_def)
    have "choose_evict st = Inr (i, st\<lparr>cache := acquired (Some i) (cache st)\<rparr>)"
      using r Returned by (simp add: choose_evict_def sel_def)
    with i show ?thesis by (intro exI [of _ i]) auto
  next
    case (Scanned ev)
    with p have allv: "\<forall>j<CACHE_SIZE. valid (cache st ! j)" by (auto simp: scan_post_def)
    with assms(2) obtain k where k: "k < CACHE_SIZE" "time (cache st ! k) < ticks st" by auto
    from p Scanned k obtain e where e: "ev = Some e" "e < CACHE_SIZE"
        "\<forall>j<CACHE_SIZE. time (cache st ! e) \<le> time (cache st ! j)"
        "\<forall>j<e. time (cache st ! e) < time (cache st ! j)"
      by (fastforce simp: scan_post_def)
    have nth: "acquired (Some e) (cache st) ! e = (cache st ! e)\<lparr>sema := 0\<rparr>"
      using e(2) len by (simp add: acquired_def)
    have "choose_evict st =
       Inr (e, if dirty (cache st ! e)
               then block_write (block (cache st ! e)) (disk_sector (cache st ! e))
                      (disk_data (cache st ! e)) (st\<lparr>cache := acquired (Some e) (cache st)\<rparr>)
               else st\<lparr>cache := acquired (Some e) (cache st)\<rparr>)"
      using r Scanned e(1) by (simp add: choose_evict_def sel_def nth)
    with e allv show ?thesis by (intro exI [of _ e]) auto
  qed
qed

subsection \<open>Eviction\<close>











subsection \<open>What the cache functions leave alone\<close>

lemma cache_frame_refl: "cache_frame st st"
  by (simp add: cache_frame_def)

lemma cache_frame_trans: "cache_frame st st1 \<Longrightarrow> cache_frame st1 st2 \<Longrightarrow> cache_frame st st2"
  by (simp add: cache_frame_def)

lemma line_upd_frame: "cache_frame st (line_upd k f st)"
  by (simp add: cache_frame_def line_upd_def)

lemma sema_up_frame: "cache_frame st (sema_up k st)"
  by (simp add: sema_up_def line_upd_frame)

lemma sema_up_opt_frame: "cache_frame st (sema_up_opt e st)"
  by (simp add: sema_up_opt_def sema_up_frame cache_frame_refl split: option.splits)

lemma sema_down_frame: "sema_down k st = Inr st' \<Longrightarrow> cache_frame st st'"
  by (auto simp: sema_down_def line_upd_frame split: if_splits)

lemma block_write_frame: "cache_frame st (block_write b s d st)"
  by (simp add: cache_frame_def block_write_def)

lemma block_read_frame: "block_read b s st = (d, st') \<Longrightarrow> cache_frame st st'"
  by (auto simp: cache_frame_def block_read_def)

lemma find_cacheline_from_frame:
  "find_cacheline_from k b s st = Inr (r, st') \<Longrightarrow> cache_frame st st'"
proof (induction k b s st rule: find_cacheline_from.induct)
  case (1 k b s st)
  show ?case
  proof (cases "k < CACHE_SIZE")
    case False
    with "1.prems" show ?thesis
      by (subst (asm) find_cacheline_from.simps) (simp add: cache_frame_refl)
  next
    case True
    from "1.prems" True obtain st1 where d: "sema_down k st = Inr st1"
      by (subst (asm) find_cacheline_from.simps) (auto split: sum.splits)
    show ?thesis
    proof (cases "valid (cache st1 ! k) \<and> block (cache st1 ! k) = b \<and> disk_sector (cache st1 ! k) = s")
      case hit: True
      with "1.prems" True d have "st' = st1"
        by (subst (asm) find_cacheline_from.simps) simp
      with d show ?thesis by (simp add: sema_down_frame)
    next
      case miss: False
      with "1.prems" True d have "find_cacheline_from (k + 1) b s (sema_up k st1) = Inr (r, st')"
        by (subst (asm) find_cacheline_from.simps) auto
      then have "cache_frame (sema_up k st1) st'"
        using True d miss by (intro "1.IH") auto
      with d show ?thesis
        by (meson cache_frame_trans sema_down_frame sema_up_frame)
    qed
  qed
qed

lemma choose_evict_from_frame:
  "choose_evict_from k evict t st = Inr (r, st') \<Longrightarrow> cache_frame st st'"
proof (induction k evict t st rule: choose_evict_from.induct)
  case (1 k evict t st)
  show ?case
  proof (cases "k < CACHE_SIZE")
    case False
    with "1.prems" show ?thesis
      by (subst (asm) choose_evict_from.simps) (simp add: cache_frame_refl)
  next
    case True
    from "1.prems" True obtain st1 where d: "sema_down k st = Inr st1"
      by (subst (asm) choose_evict_from.simps) (auto split: sum.splits)
    have f1: "cache_frame st st1" using d by (rule sema_down_frame)
    show ?thesis
    proof (cases "valid (cache st1 ! k)")
      case inv: False
      with "1.prems" True d have "st' = sema_up_opt evict st1"
        by (subst (asm) choose_evict_from.simps) simp
      with f1 show ?thesis by (meson cache_frame_trans sema_up_opt_frame)
    next
      case v: True
      show ?thesis
      proof (cases "time (cache st1 ! k) < t")
        case lt: True
        with "1.prems" True d v
        have "choose_evict_from (k + 1) (Some k) (time (cache st1 ! k)) (sema_up_opt evict st1) = Inr (r, st')"
          by (subst (asm) choose_evict_from.simps) simp
        then have "cache_frame (sema_up_opt evict st1) st'"
          using True d v lt by (intro "1.IH"(1)) auto
        with f1 show ?thesis by (meson cache_frame_trans sema_up_opt_frame)
      next
        case ge: False
        with "1.prems" True d v
        have "choose_evict_from (k + 1) evict t (sema_up k st1) = Inr (r, st')"
          by (subst (asm) choose_evict_from.simps) simp
        then have "cache_frame (sema_up k st1) st'"
          using True d v ge by (intro "1.IH"(2)) auto
        with f1 show ?thesis by (meson cache_frame_trans sema_up_frame)
      qed
    qed
  qed
qed

lemma find_cacheline_frame: "find_cacheline b s st = Inr (r, st') \<Longrightarrow> cache_frame st st'"
  by (simp add: find_cacheline_def find_cacheline_from_frame)

lemma choose_evict_frame: "choose_evict st = Inr (e, st') \<Longrightarrow> cache_frame st st'"
  by (auto simp: choose_evict_def split: sum.splits scan.splits option.splits if_splits
      dest!: choose_evict_from_frame)
     (meson cache_frame_trans block_write_frame)

lemma cache_write_frame: "cache_write b s buf st = Inr st' \<Longrightarrow> cache_frame st st'"
  unfolding cache_write_def
  by (auto split: sum.splits option.splits dest!: find_cacheline_frame choose_evict_frame)
     (meson cache_frame_trans line_upd_frame sema_up_frame)+


lemma put_read_ahead_buffer_fields:
  "put_read_ahead_buffer b s st = Inr st' \<Longrightarrow>
     st' = st\<lparr>read_head_buffer := read_head_buffer st', read_head_buffer_n := read_head_buffer_n st'\<rparr>"
  by (auto simp: put_read_ahead_buffer_def split: if_splits)

lemma cache_read_frame:
  assumes "cache_read b s st = Inr (buf, st')"
  shows "\<exists>st7. cache_frame st st7 \<and> put_read_ahead_buffer b (s + 1) st7 = Inr st'"
proof -
  from assms obtain found st1 where f: "find_cacheline b s st = Inr (found, st1)"
    by (auto simp: cache_read_def split: sum.splits)
  then have f1: "cache_frame st st1" by (rule find_cacheline_frame)
  show ?thesis
  proof (cases found)
    case (Some k)
    with assms f
    have "put_read_ahead_buffer b (s + 1)
            (sema_up k (line_upd k (\<lambda>l. l\<lparr>time := ticks st1\<rparr>) st1)) = Inr st'"
      by (simp add: cache_read_def Let_def split: sum.splits)
    moreover have "cache_frame st (sema_up k (line_upd k (\<lambda>l. l\<lparr>time := ticks st1\<rparr>) st1))"
      using f1 by (meson cache_frame_trans line_upd_frame sema_up_frame)
    ultimately show ?thesis by blast
  next
    case None
    with assms f obtain k st2 where ce: "choose_evict st1 = Inr (k, st2)"
      by (auto simp: cache_read_def split: sum.splits)
    define st3 where "st3 = line_upd k (\<lambda>l. l\<lparr>dirty := False, valid := True,
                                        disk_sector := s, block := b\<rparr>) st2"
    obtain d st4 where br: "block_read b s st3 = (d, st4)" by (cases "block_read b s st3")
    define st5 where "st5 = line_upd k (\<lambda>l. l\<lparr>disk_data := d\<rparr>) st4"
    have "cache_frame st st5"
      unfolding st5_def st3_def
      by (meson f1 ce br [unfolded st3_def] cache_frame_trans line_upd_frame choose_evict_frame
            block_read_frame)
    then have "cache_frame st (sema_up k (line_upd k (\<lambda>l. l\<lparr>time := ticks st5\<rparr>) st5))"
      by (meson cache_frame_trans line_upd_frame sema_up_frame)
    moreover have "put_read_ahead_buffer b (s + 1)
            (sema_up k (line_upd k (\<lambda>l. l\<lparr>time := ticks st5\<rparr>) st5)) = Inr st'"
      using assms f None ce br
      by (simp add: cache_read_def Let_def st5_def st3_def split: sum.splits)
    ultimately show ?thesis by blast
  qed
qed

lemma cache_read_heap:
  assumes "cache_read b s st = Inr (buf, st')"
  shows "inode_heap st' = inode_heap st \<and> open_inodes st' = open_inodes st
     \<and> mem_left st' = mem_left st \<and> next_addr st' = next_addr st
     \<and> free_map st' = free_map st \<and> fs_device st' = fs_device st"
proof -
  from cache_read_frame [OF assms] obtain st7 where
    "cache_frame st st7" "put_read_ahead_buffer b (s + 1) st7 = Inr st'" by blast
  then show ?thesis
    by (auto simp: cache_frame_def put_read_ahead_buffer_def split: if_splits)
qed

lemma cache_write_heap:
  assumes "cache_write b s buf st = Inr st'"
  shows "inode_heap st' = inode_heap st \<and> open_inodes st' = open_inodes st
     \<and> mem_left st' = mem_left st \<and> next_addr st' = next_addr st
     \<and> free_map st' = free_map st \<and> fs_device st' = fs_device st"
  using cache_write_frame [OF assms] by (simp add: cache_frame_def)

subsection \<open>The read-ahead buffer\<close>

lemma read_ahead_step_fields:
  assumes "read_ahead_step st = Inr (el, st')"
  shows "read_head_buffer_n st \<noteq> 0
     \<and> unat (read_head_buffer_n st - 1) < READ_AHEAD_BUFFER_SIZE
     \<and> el = read_head_buffer st ! unat (read_head_buffer_n st - 1)
     \<and> cache_frame (st\<lparr>read_head_buffer_n := read_head_buffer_n st - 1\<rparr>) st'"
proof -
  define st1 where "st1 = st\<lparr>read_head_buffer_n := read_head_buffer_n st - 1\<rparr>"
  have n: "read_head_buffer_n st \<noteq> 0"
    using assms by (auto simp: read_ahead_step_def split: if_splits)
  have b: "unat (read_head_buffer_n st - 1) < READ_AHEAD_BUFFER_SIZE"
    using assms n by (auto simp: read_ahead_step_def Let_def split: if_splits)
  have e: "el = read_head_buffer st ! unat (read_head_buffer_n st - 1)"
    using assms n b
    by (auto simp: read_ahead_step_def Let_def split: if_splits sum.splits option.splits prod.splits)
  have "cache_frame st1 st'"
  proof (cases "unat (elem_sector el) < block_size (elem_block el) st1")
    case False
    with assms n b e have "st' = st1"
      by (auto simp: read_ahead_step_def Let_def st1_def split: if_splits)
    then show ?thesis by (simp add: cache_frame_refl)
  next
    case True
    with assms n b e obtain found st2 where
      f: "find_cacheline (elem_block el) (elem_sector el) st1 = Inr (found, st2)"
      by (auto simp: read_ahead_step_def Let_def st1_def split: if_splits sum.splits)
    then have f1: "cache_frame st1 st2" by (rule find_cacheline_frame)
    show ?thesis
    proof (cases found)
      case (Some k)
      with assms n b e True f have "st' = sema_up k st2"
        by (auto simp: read_ahead_step_def Let_def st1_def split: if_splits)
      with f1 show ?thesis by (meson cache_frame_trans sema_up_frame)
    next
      case None
      with assms n b e True f obtain k st3 where ce: "choose_evict st2 = Inr (k, st3)"
        by (auto simp: read_ahead_step_def Let_def st1_def split: if_splits sum.splits)
      define st4 where "st4 = line_upd k (\<lambda>l. l\<lparr>dirty := False, valid := True,
            disk_sector := elem_sector el, block := elem_block el\<rparr>) st3"
      obtain d st5 where br: "block_read (elem_block el) (elem_sector el) st4 = (d, st5)"
        by (cases "block_read (elem_block el) (elem_sector el) st4")
      have "st' = sema_up k (line_upd k (\<lambda>l. l\<lparr>disk_data := d\<rparr>) st5)"
        using assms n b e True f None ce br
        by (auto simp: read_ahead_step_def Let_def st1_def st4_def split: if_splits)
      moreover have "cache_frame st1 st5"
        by (meson f1 ce br [unfolded st4_def] cache_frame_trans line_upd_frame choose_evict_frame
              block_read_frame)
      ultimately show ?thesis by (meson cache_frame_trans line_upd_frame sema_up_frame)
    qed
  qed
  with n b e show ?thesis by (simp add: st1_def)
qed

lemma unat_pred: "(n::32 word) \<noteq> 0 \<Longrightarrow> unat n = Suc (unat (n - 1))"
  by (metis Suc_pred' unat_gt_0 unat_minus_one)

lemma unat_succ: "unat (n::32 word) < 64 \<Longrightarrow> unat (n + 1) = Suc (unat n)"
  by (simp add: unat_word_ariths)

subsection \<open>Reading a sector through the cache\<close>

lemma find_cacheline_from_scan:
  assumes "lines_free st0"
  shows "k \<le> CACHE_SIZE \<Longrightarrow>
    \<exists>r. find_cacheline_from k b s st0 = Inr (r, st0\<lparr>cache := acquired r (cache st0)\<rparr>)
       \<and> (case r of
            Some i \<Rightarrow> k \<le> i \<and> i < CACHE_SIZE \<and> hit b s (cache st0 ! i)
                       \<and> (\<forall>j. k \<le> j \<and> j < i \<longrightarrow> \<not> hit b s (cache st0 ! j))
          | None \<Rightarrow> (\<forall>j. k \<le> j \<and> j < CACHE_SIZE \<longrightarrow> \<not> hit b s (cache st0 ! j)))"
proof (induction "CACHE_SIZE - k" arbitrary: k)
  case 0
  then have "k = CACHE_SIZE" by simp
  then show ?case
    by (subst find_cacheline_from.simps) (auto simp: acquired_def)
next
  case (Suc n)
  then have k: "k < CACHE_SIZE" by simp
  let ?c = "cache st0"
  have len: "length ?c = CACHE_SIZE" using assms by (simp add: lines_free_def)
  have sk: "sema (?c ! k) = 1" using assms k by (rule lines_free_nth)
  have down: "sema_down k st0 = Inr (st0\<lparr>cache := acquired (Some k) ?c\<rparr>)"
    using sk by (simp add: sema_down_def line_upd_def acquired_def)
  have nk: "acquired (Some k) ?c ! k = (?c ! k)\<lparr>sema := 0\<rparr>"
    using k len by (simp add: acquired_def)
  have up: "sema_up k (st0\<lparr>cache := acquired (Some k) ?c\<rparr>) = st0"
    using sk k len by (simp add: sema_up_def line_upd_def acquired_def sema_restore upd_undo)
  show ?case
  proof (cases "hit b s (?c ! k)")
    case True
    then have "find_cacheline_from k b s st0 = Inr (Some k, st0\<lparr>cache := acquired (Some k) ?c\<rparr>)"
      using k by (subst find_cacheline_from.simps) (simp add: down nk hit_def)
    with True k show ?thesis by (intro exI [of _ "Some k"]) auto
  next
    case False
    then have step: "find_cacheline_from k b s st0 = find_cacheline_from (k + 1) b s st0"
      using k by (subst find_cacheline_from.simps) (auto simp: down nk hit_def up)
    have "\<exists>r. find_cacheline_from (k + 1) b s st0 = Inr (r, st0\<lparr>cache := acquired r ?c\<rparr>)
       \<and> (case r of
            Some i \<Rightarrow> k + 1 \<le> i \<and> i < CACHE_SIZE \<and> hit b s (?c ! i)
                       \<and> (\<forall>j. k + 1 \<le> j \<and> j < i \<longrightarrow> \<not> hit b s (?c ! j))
          | None \<Rightarrow> (\<forall>j. k + 1 \<le> j \<and> j < CACHE_SIZE \<longrightarrow> \<not> hit b s (?c ! j)))"
      using Suc.hyps(2) k by (intro Suc.hyps(1)) simp_all
    then obtain r where r: "find_cacheline_from (k + 1) b s st0 = Inr (r, st0\<lparr>cache := acquired r ?c\<rparr>)"
      and p: "case r of
            Some i \<Rightarrow> k + 1 \<le> i \<and> i < CACHE_SIZE \<and> hit b s (?c ! i)
                       \<and> (\<forall>j. k + 1 \<le> j \<and> j < i \<longrightarrow> \<not> hit b s (?c ! j))
          | None \<Rightarrow> (\<forall>j. k + 1 \<le> j \<and> j < CACHE_SIZE \<longrightarrow> \<not> hit b s (?c ! j))"
      by blast
    have "case r of
            Some i \<Rightarrow> k \<le> i \<and> i < CACHE_SIZE \<and> hit b s (?c ! i)
                       \<and> (\<forall>j. k \<le> j \<and> j < i \<longrightarrow> \<not> hit b s (?c ! j))
          | None \<Rightarrow> (\<forall>j. k \<le> j \<and> j < CACHE_SIZE \<longrightarrow> \<not> hit b s (?c ! j))"
      using p False k by (cases r) (simp_all add: all_from [of k])
    with step r show ?thesis by auto
  qed
qed

lemma find_first_hit:
  assumes "i < length c" "P (c ! i)" "\<forall>j<i. \<not> P (c ! j)"
  shows "find P c = Some (c ! i)"
  using assms by (auto simp: find_Some_iff)

lemma find_no_hit:
  assumes "\<forall>j<length c. \<not> P (c ! j)"
  shows "find P c = None"
  using assms by (auto simp: find_None_iff in_set_conv_nth)

lemma cache_read_result:
  assumes "cache_ready b s st"
  shows "\<exists>st'. cache_read b s st = Inr (sector_view b s st, st')"
proof -
  let ?c = "cache st"
  have lf: "lines_free st" and room: "unat (read_head_buffer_n st) < READ_AHEAD_BUFFER_SIZE"
    and some: "list_ex (hit b s) ?c \<or> list_ex (\<lambda>l. \<not> valid l \<or> time l < ticks st) ?c"
    using assms by (simp_all add: cache_ready_def)
  have len: "length ?c = CACHE_SIZE" using lf by (simp add: lines_free_def)
  have put: "\<And>st7. cache_frame st st7 \<Longrightarrow> \<exists>st'. put_read_ahead_buffer b (s + 1) st7 = Inr st'"
    using room by (simp add: put_read_ahead_buffer_def cache_frame_def)
  from find_cacheline_from_scan [OF lf, of 0 b s]
  obtain r where f: "find_cacheline b s st = Inr (r, st\<lparr>cache := acquired r ?c\<rparr>)"
    and p: "case r of
            Some i \<Rightarrow> i < CACHE_SIZE \<and> hit b s (?c ! i) \<and> (\<forall>j<i. \<not> hit b s (?c ! j))
          | None \<Rightarrow> (\<forall>j<CACHE_SIZE. \<not> hit b s (?c ! j))"
    by (auto simp: find_cacheline_def split: option.splits)
  show ?thesis
  proof (cases r)
    case (Some k)
    with p have k: "k < CACHE_SIZE" "hit b s (?c ! k)" "\<forall>j<k. \<not> hit b s (?c ! j)" by simp_all
    have v: "sector_view b s st = disk_data (?c ! k)"
      using find_first_hit [of k ?c "hit b s"] k len by (simp add: sector_view_def)
    define st5 where "st5 = st\<lparr>cache := acquired (Some k) ?c\<rparr>"
    have d: "disk_data (cache st5 ! k) = disk_data (?c ! k)"
      using k len by (simp add: st5_def acquired_def)
    have "cache_frame st (sema_up k (line_upd k (\<lambda>l. l\<lparr>time := ticks st5\<rparr>) st5))"
      by (simp add: cache_frame_def sema_up_def line_upd_def st5_def)
    from put [OF this] obtain st' where
      "put_read_ahead_buffer b (s + 1) (sema_up k (line_upd k (\<lambda>l. l\<lparr>time := ticks st5\<rparr>) st5)) = Inr st'"
      by blast
    then have "cache_read b s st = Inr (disk_data (?c ! k), st')"
      using f Some d by (simp add: cache_read_def Let_def st5_def)
    with v show ?thesis by auto
  next
    case None
    with p have nohit: "\<forall>j<CACHE_SIZE. \<not> hit b s (?c ! j)" by simp
    then have nf: "find (hit b s) ?c = None" using len by (intro find_no_hit) simp
    then have v: "sector_view b s st = dev_data st b s" by (simp add: sector_view_def)
    have st1: "st\<lparr>cache := acquired None ?c\<rparr> = st" by (simp add: acquired_def)
    have "\<not> list_ex (hit b s) ?c" using nf by (simp add: find_None_iff list_ex_iff)
    with some have "list_ex (\<lambda>l. \<not> valid l \<or> time l < ticks st) ?c" by simp
    then have ev: "(\<exists>k<CACHE_SIZE. \<not> valid (?c ! k)) \<or> (\<exists>k<CACHE_SIZE. time (?c ! k) < ticks st)"
      using len by (auto simp: list_ex_iff in_set_conv_nth)
    from choose_evict_result [OF lf ev]
    obtain e where e: "e < CACHE_SIZE"
      and ce: "choose_evict st =
         Inr (e, if valid (?c ! e) \<and> dirty (?c ! e)
               then block_write (block (?c ! e)) (disk_sector (?c ! e))
                      (disk_data (?c ! e)) (st\<lparr>cache := acquired (Some e) ?c\<rparr>)
               else st\<lparr>cache := acquired (Some e) ?c\<rparr>)"
      by blast
    define st2 where "st2 = (if valid (?c ! e) \<and> dirty (?c ! e)
               then block_write (block (?c ! e)) (disk_sector (?c ! e))
                      (disk_data (?c ! e)) (st\<lparr>cache := acquired (Some e) ?c\<rparr>)
               else st\<lparr>cache := acquired (Some e) ?c\<rparr>)"
    have f2: "cache_frame st st2"
      by (simp add: st2_def cache_frame_def block_write_def)
    have ne: "\<not> hit b s (?c ! e)" using nohit e by simp
    have dev: "dev_data st2 b s = dev_data st b s"
      using ne by (auto simp: st2_def block_write_def hit_def)
    define st3 where "st3 = line_upd e (\<lambda>l. l\<lparr>dirty := False, valid := True,
                                        disk_sector := s, block := b\<rparr>) st2"
    define st4 where "st4 = st3\<lparr>io_log := io_log st3 @ [BlockRead b s]\<rparr>"
    have br: "block_read b s st3 = (dev_data st b s, st4)"
      using dev by (simp add: block_read_def st3_def st4_def line_upd_def)
    define st5 where "st5 = line_upd e (\<lambda>l. l\<lparr>disk_data := dev_data st b s\<rparr>) st4"
    have len5: "length (cache st5) = CACHE_SIZE"
      using len by (auto simp: st5_def st4_def st3_def st2_def line_upd_def acquired_def block_write_def)
    have d: "disk_data (cache st5 ! e) = dev_data st b s"
      using e len
      by (auto simp: st5_def st4_def st3_def st2_def line_upd_def acquired_def block_write_def)
    have "cache_frame st st5"
      using f2 by (simp add: cache_frame_def st5_def st4_def st3_def line_upd_def)
    then have "cache_frame st (sema_up e (line_upd e (\<lambda>l. l\<lparr>time := ticks st5\<rparr>) st5))"
      by (simp add: cache_frame_def sema_up_def line_upd_def)
    from put [OF this] obtain st' where
      "put_read_ahead_buffer b (s + 1) (sema_up e (line_upd e (\<lambda>l. l\<lparr>time := ticks st5\<rparr>) st5)) = Inr st'"
      by blast
    then have "cache_read b s st = Inr (dev_data st b s, st')"
      using f None ce br d
      by (simp add: cache_read_def Let_def st1 st5_def st3_def st2_def)
    with v show ?thesis by auto
  qed
qed

subsection \<open>The registry of open inodes\<close>

lemma find_open_absent:
  assumes "\<forall>a\<in>set as. h a \<noteq> None \<and> sector (the (h a)) \<noteq> s"
  shows "find_open h as s = Inr None"
  using assms by (induction as) auto


lemma is_open_iff:
  "is_open s st = (\<exists>a\<in>set (open_inodes st). sector (the (inode_heap st a)) = s)"
  by (simp add: is_open_def list_ex_iff)


lemma inodes_ok_fresh: "inodes_ok st \<Longrightarrow> inode_heap st (next_addr st) = None"
  by (auto simp: inodes_ok_def list_all_iff)



















lemma inodes_ok_example: "inodes_ok example_state"
  by (simp add: inodes_ok_def example_state_def init_state_def)



subsection \<open>Opening a sector that holds no inode\<close>

text \<open>
  C10. \<open>inode_open\<close> does not look at the magic number. For every sector that is not
  open, when the allocation succeeds and the cache can complete the read, it returns a
  new in-memory inode, first in the list of open inodes, with \<open>open_cnt = 1\<close> and its
  data decoded from the raw contents of the sector as the cache presents them, whatever
  they are: the statement has no condition on \<open>magic\<close>.
\<close>

theorem inode_open_ignores_magic:
  assumes "inodes_ok st" "\<not> is_open s st" "0 < mem_left st"
    and "cache_ready (fs_device st) s st"
  shows "\<exists>st'. inode_open s st = Inr (Some (next_addr st), st')
       \<and> inode_heap st' (next_addr st) =
           Some \<lparr>sector = s, open_cnt = 1, removed = False, deny_write_cnt = 0,
                 data = inode_disk_of_bytes (sector_view (fs_device st) s st)\<rparr>
       \<and> open_inodes st' = next_addr st # open_inodes st"
proof -
  define st2 where "st2 = st\<lparr>mem_left := mem_left st - 1, next_addr := next_addr st + 1,
                   open_inodes := next_addr st # open_inodes st\<rparr>"
  have fo: "find_open (inode_heap st) (open_inodes st) s = Inr None"
    using assms(1,2) by (intro find_open_absent) (auto simp: is_open_iff inodes_ok_def)
  have "cache_ready (fs_device st) s st2"
    using assms(4) by (simp add: cache_ready_def lines_free_def st2_def)
  from cache_read_result [OF this] obtain st3 where
    cr: "cache_read (fs_device st) s st2 = Inr (sector_view (fs_device st) s st2, st3)"
    by blast
  have v: "sector_view (fs_device st) s st2 = sector_view (fs_device st) s st"
    by (simp add: sector_view_def st2_def split: option.splits)
  from cache_read_heap [OF cr]
  have h: "inode_heap st3 = inode_heap st" "open_inodes st3 = next_addr st # open_inodes st"
    by (simp_all add: st2_def)
  have "inode_open s st = Inr (Some (next_addr st),
      st3\<lparr>inode_heap := (inode_heap st3)(next_addr st \<mapsto>
           \<lparr>sector = s, open_cnt = 1, removed = False, deny_write_cnt = 0,
            data = inode_disk_of_bytes (sector_view (fs_device st) s st)\<rparr>)\<rparr>)"
    using fo assms(3) cr v
    by (simp add: inode_open_def malloc_def Let_def st2_def)
  with h show ?thesis by simp
qed

lemma le32_zeros: "le32 (replicate n 0) = 0"
  by (induction n) (simp_all add: le32_def)

lemma u32_at_zeros: "u32_at zeros i = 0"
  by (simp add: u32_at_def zeros_def le32_zeros)

theorem inode_open_ignores_magic_witness:
  "inodes_ok example_state \<and> \<not> is_open 9 example_state \<and> cache_ready 1 9 example_state
   \<and> sector_view 1 9 example_state = zeros
   \<and> magic (inode_disk_of_bytes zeros) \<noteq> INODE_MAGIC
   \<and> (\<exists>st'. inode_open 9 example_state = Inr (Some 1, st')
         \<and> inode_heap st' 1 =
             Some \<lparr>sector = 9, open_cnt = 1, removed = False, deny_write_cnt = 0,
                   data = inode_disk_of_bytes zeros\<rparr>)"
proof -
  have c: "cache example_state = replicate CACHE_SIZE calloc_line"
    by (simp add: example_state_def init_state_def)
  have no: "\<not> is_open 9 example_state"
    by (simp add: is_open_def example_state_def example_inode_def)
  have nf: "find (hit 1 9) (cache example_state) = None"
    by (simp add: c find_None_iff hit_def calloc_line_def)
  have v: "sector_view 1 9 example_state = zeros"
    unfolding sector_view_def nf by (simp add: example_state_def example_disk_def)
  have rdy: "cache_ready 1 9 example_state"
    by (simp add: cache_ready_def lines_free_def list_all_length list_ex_iff c calloc_line_def
          CACHE_SIZE_def READ_AHEAD_BUFFER_SIZE_def)
       (simp add: example_state_def init_state_def)
  have m: "magic (inode_disk_of_bytes zeros) \<noteq> INODE_MAGIC"
    by (simp add: inode_disk_of_bytes_def u32_at_zeros INODE_MAGIC_def)
  have f: "fs_device example_state = 1" "next_addr example_state = 1" "0 < mem_left example_state"
    by (simp_all add: example_state_def init_state_def)
  from rdy f have rdy': "cache_ready (fs_device example_state) 9 example_state" by simp
  from inode_open_ignores_magic [OF inodes_ok_example no f(3) rdy']
  obtain st' where "inode_open 9 example_state = Inr (Some 1, st')"
    "inode_heap st' 1 =
             Some \<lparr>sector = 9, open_cnt = 1, removed = False, deny_write_cnt = 0,
                   data = inode_disk_of_bytes zeros\<rparr>"
    unfolding f v by blast
  with inodes_ok_example no rdy v m show ?thesis by blast
qed

subsection \<open>Removing a directory that is open\<close>


lemma remove_flagged_example: "remove_flagged ''/d'' = ''/d''"
  by code_simp

lemma strtok_tokens_example: "strtok_tokens ''/d'' = [''d'']"
  by (simp add: strtok_tokens_def)

lemma find_dir_example: "find_dir example_fs 1 ''/d'' buf = Inr (True, 1, ''d'')"
  by (simp add: find_dir_def PATH_MAX_def remove_flagged_example strtok_tokens_example
        NAME_MAX_def dir_lookup_def lookup_def example_fs_def ROOT_DIR_SECTOR_def)

text \<open>
  C7 says that removing a directory that is in use returns false and removes nothing.
  The code does otherwise. \<open>filesys_remove\<close> goes through the open files of the running
  thread only, and compares the inode of each open directory with the inode of the
  thread's current directory, not with the directory that is being removed. Here the
  thread holds the empty directory \<open>/d\<close> open and its current directory is the root: the
  call returns true, the entry \<open>d\<close> is gone from the root and the inode of \<open>/d\<close> is
  marked removed.
\<close>

theorem filesys_remove_open_directory:
  "\<exists>fs'. filesys_remove example_fs example_thread ''/d'' buf = Inr (True, fs')
      \<and> dir_lookup fs' 1 ''d'' = None \<and> inode_removed fs' 7"
  by (simp add: filesys_remove_def find_dir_example example_thread_def)
     (simp add: dir_lookup_def lookup_def example_fs_def dir_is_empty_def dir_remove_def)

subsection \<open>Resolving a path\<close>

lemma find_dir_loop_not_found:
  "find_dir_loop fs toks dir ino ln True =
     (if toks = [] then Inr (True, ino, ln) else Inr (False, ino, ln))"
  by (cases toks) simp_all

lemma find_dir_loop_ok:
  assumes "toks \<noteq> []" "\<forall>t\<in>set toks. length t \<le> NAME_MAX"
    "resolve fs d (butlast toks) = Some p"
  shows "find_dir_loop fs toks (Some d) ino ln False = Inr (True, p, last toks)"
  using assms
proof (induction toks arbitrary: d ino ln)
  case Nil
  then show ?case by simp
next
  case (Cons t ts)
  show ?case
  proof (cases ts)
    case Nil
    with Cons.prems show ?thesis
      by (auto simp: find_dir_loop_not_found split: option.splits)
  next
    case (Cons u us)
    with Cons.prems obtain nxt where n: "dir_lookup fs d t = Some nxt"
      "resolve fs nxt (butlast ts) = Some p"
      by (auto split: option.splits)
    have "find_dir_loop fs ts (Some nxt) d t False = Inr (True, p, last ts)"
      using Cons.prems n Cons by (intro Cons.IH) auto
    with n Cons.prems Cons show ?thesis by auto
  qed
qed

lemma find_dir_loop_fail:
  assumes "toks \<noteq> []"
    "\<not> (\<forall>t\<in>set toks. length t \<le> NAME_MAX) \<or> resolve fs d (butlast toks) = None"
  shows "returns_false (find_dir_loop fs toks (Some d) ino ln False)"
  using assms
proof (induction toks arbitrary: d ino ln)
  case Nil
  then show ?case by simp
next
  case (Cons t ts)
  show ?case
  proof (cases "length t > NAME_MAX")
    case True
    then show ?thesis by (simp add: returns_false_def)
  next
    case short: False
    show ?thesis
    proof (cases ts)
      case Nil
      with Cons.prems short show ?thesis by auto
    next
      case c: (Cons u us)
      show ?thesis
      proof (cases "dir_lookup fs d t")
        case None
        with short c show ?thesis
          by (simp add: find_dir_loop_not_found returns_false_def)
      next
        case (Some nxt)
        have "returns_false (find_dir_loop fs ts (Some nxt) d t False)"
          using Cons.prems short c Some by (intro Cons.IH) auto
        with short Some show ?thesis by simp
      qed
    qed
  qed
qed

lemma remove_flagged_hd:
  "(remove_flagged t \<noteq> [] \<and> hd (remove_flagged t) = c) = (t \<noteq> [] \<and> hd t = c)"
proof (cases t)
  case Nil
  then show ?thesis by (simp add: remove_flagged_def)
next
  case (Cons x xs)
  then show ?thesis by (simp add: remove_flagged_def upt_conv_Cons del: upt_Suc)
qed

lemma find_dir_unfold:
  assumes "path \<noteq> []"
  shows "find_dir fs cwd path buf =
      (case find_dir_loop fs (path_tokens path) (Some (path_start cwd path))
              (path_start cwd path) buf False of
           Inl e \<Rightarrow> Inl e
         | Inr (False, ino, ln) \<Rightarrow> Inr (False, ino, ln)
         | Inr (True, ino, ln) \<Rightarrow>
             Inr (True, ino, if last path = CHR ''/'' then ''.'' else ln))"
proof -
  define nm where "nm = remove_flagged (take PATH_MAX path)"
  define start where "start = (if nm \<noteq> [] \<and> hd nm = CHR ''/'' then ROOT_DIR_SECTOR else cwd)"
  have t: "path_tokens path = strtok_tokens nm" by (simp add: path_tokens_def nm_def)
  have "take PATH_MAX path \<noteq> []" using assms by (simp add: PATH_MAX_def)
  then have "(nm \<noteq> [] \<and> hd nm = CHR ''/'') = (path \<noteq> [] \<and> hd path = CHR ''/'')"
    using assms unfolding nm_def remove_flagged_hd by (simp add: PATH_MAX_def hd_take)
  then have s: "path_start cwd path = start" by (simp add: path_start_def start_def)
  show ?thesis
    unfolding t s
    using assms by (simp add: find_dir_def nm_def start_def Let_def split: sum.splits bool.splits)
qed

text \<open>
  C6, as amended. \<open>find_dir\<close> works on the first \<open>PATH_MAX\<close> characters of a non-empty
  path, with runs of slashes collapsed. It succeeds exactly when no component of that
  prefix is longer than \<open>NAME_MAX\<close> and every component but the last is found, walking
  from the root for an absolute path and from the current directory otherwise; otherwise
  it returns false. On success \<open>*inode\<close> is the directory in which the last component is
  to be looked up, whether that component exists or not, and \<open>last_name\<close> is that
  component, or \<open>.\<close> if the original path ends in a slash.
\<close>

theorem find_dir_resolves:
  assumes "path \<noteq> []"
  shows "if (\<forall>t\<in>set (path_tokens path). length t \<le> NAME_MAX)
            \<and> resolve fs (path_start cwd path) (butlast (path_tokens path)) \<noteq> None
         then find_dir fs cwd path buf =
                Inr (True, the (resolve fs (path_start cwd path) (butlast (path_tokens path))),
                     if last path = CHR ''/'' then ''.''
                     else if path_tokens path = [] then buf else last (path_tokens path))
         else returns_false (find_dir fs cwd path buf)"
proof -
  let ?toks = "path_tokens path" and ?start = "path_start cwd path"
  note fd = find_dir_unfold [OF assms, of fs cwd buf]
  show ?thesis
  proof (cases "?toks = []")
    case True
    then show ?thesis by (simp add: fd)
  next
    case ne: False
    show ?thesis
    proof (cases "(\<forall>t\<in>set ?toks. length t \<le> NAME_MAX)
            \<and> resolve fs ?start (butlast ?toks) \<noteq> None")
      case True
      then obtain p where p: "resolve fs ?start (butlast ?toks) = Some p" by auto
      with True ne have "find_dir_loop fs ?toks (Some ?start) ?start buf False
          = Inr (True, p, last ?toks)"
        by (intro find_dir_loop_ok) auto
      with True p ne show ?thesis by (simp add: fd)
    next
      case False
      with ne have "returns_false (find_dir_loop fs ?toks (Some ?start) ?start buf False)"
        by (intro find_dir_loop_fail) auto
      then have r: "returns_false (find_dir fs cwd path buf)"
        by (auto simp: fd returns_false_def split: sum.splits bool.splits)
      show ?thesis using False r by (simp only: if_False simp_thms)
    qed
  qed
qed

lemma example_dot: "dir_lookup example_fs 1 ''.'' = Some 1"
  by (simp add: dir_lookup_def lookup_def example_fs_def)

lemma resolve_dots: "resolve example_fs 1 (replicate n ''.'') = Some 1"
  by (induction n) (simp_all add: example_dot)

lemma long_path_tokens:
  "path_tokens (concat (replicate 128 ''./'') @ ''a_name_longer_than_14'') = replicate 128 ''.''"
  by code_simp

theorem find_dir_resolves_witness:
  "find_dir example_fs 7 ''/d/new'' [] = Inr (True, 7, ''new'')
   \<and> find_dir example_fs 7 ''..//d/'' [] = Inr (True, 1, ''.'')
   \<and> returns_false (find_dir example_fs 1 ''/missing/new'' [])
   \<and> returns_false (find_dir example_fs 1 ''/d/a_name_longer_than_14'' [])"
proof -
  have t1: "path_tokens ''/d/new'' = [''d'', ''new'']" by code_simp
  have t2: "path_tokens ''..//d/'' = [''..'', ''d'']" by code_simp
  have t3: "path_tokens ''/missing/new'' = [''missing'', ''new'']" by code_simp
  have t4: "path_tokens ''/d/a_name_longer_than_14'' = [''d'', ''a_name_longer_than_14'']"
    by code_simp
  have l: "dir_lookup example_fs 1 ''d'' = Some 7" "dir_lookup example_fs 7 ''..'' = Some 1"
    "dir_lookup example_fs 1 ''missing'' = None"
    by (simp_all add: dir_lookup_def lookup_def example_fs_def)
  from find_dir_resolves [of "''/d/new''" example_fs 7 "[]"]
  have 1: "find_dir example_fs 7 ''/d/new'' [] = Inr (True, 7, ''new'')"
    by (simp add: t1 l path_start_def ROOT_DIR_SECTOR_def NAME_MAX_def)
  from find_dir_resolves [of "''..//d/''" example_fs 7 "[]"]
  have 2: "find_dir example_fs 7 ''..//d/'' [] = Inr (True, 1, ''.'')"
    by (simp add: t2 l path_start_def ROOT_DIR_SECTOR_def NAME_MAX_def)
  from find_dir_resolves [of "''/missing/new''" example_fs 1 "[]"]
  have 3: "returns_false (find_dir example_fs 1 ''/missing/new'' [])"
    by (simp add: t3 l path_start_def ROOT_DIR_SECTOR_def NAME_MAX_def)
  from find_dir_resolves [of "''/d/a_name_longer_than_14''" example_fs 1 "[]"]
  have 4: "returns_false (find_dir example_fs 1 ''/d/a_name_longer_than_14'' [])"
    by (simp add: t4 l path_start_def ROOT_DIR_SECTOR_def NAME_MAX_def)
  from 1 2 3 4 show ?thesis by simp
qed

theorem find_dir_counterexample:
  "NAME_MAX < length ''a_name_longer_than_14''
   \<and> find_dir example_fs 1 (concat (replicate 128 ''./'') @ ''a_name_longer_than_14'') []
       = Inr (True, 1, ''.'')"
proof -
  define p where "p = concat (replicate 128 ''./'') @ ''a_name_longer_than_14''"
  have ne: "p \<noteq> []" by (simp add: p_def)
  have l: "last p \<noteq> CHR ''/''" by (simp add: p_def)
  have h: "hd p \<noteq> CHR ''/''" by (simp add: p_def numeral_eq_Suc)
  have t: "path_tokens p = replicate 128 ''.''" unfolding p_def by (rule long_path_tokens)
  have s: "path_start 1 p = 1" using h by (simp add: path_start_def)
  have b: "butlast (replicate 128 ''.'') = replicate 127 ''.''" by (simp add: butlast_conv_take)
  have "find_dir_loop example_fs (replicate 128 ''.'') (Some 1) 1 [] False
      = Inr (True, 1, last (replicate 128 ''.''))"
    by (intro find_dir_loop_ok) (simp_all add: b resolve_dots NAME_MAX_def)
  then have "find_dir example_fs 1 p [] = Inr (True, 1, ''.'')"
    using l by (simp add: find_dir_unfold [OF ne] t s)
  then show ?thesis by (simp add: NAME_MAX_def p_def)
qed

subsection \<open>Creating an inode when the free map runs out\<close>

lemma cache_write_result:
  assumes "lines_free st"
    and "list_ex (hit b s) (cache st) \<or> list_ex (\<lambda>l. \<not> valid l \<or> time l < ticks st) (cache st)"
  shows "\<exists>st'. cache_write b s buf st = Inr st'"
proof -
  let ?c = "cache st"
  have len: "length ?c = CACHE_SIZE" using assms(1) by (simp add: lines_free_def)
  from find_cacheline_from_scan [OF assms(1), of 0 b s]
  obtain r where f: "find_cacheline b s st = Inr (r, st\<lparr>cache := acquired r ?c\<rparr>)"
    and p: "case r of
            Some i \<Rightarrow> i < CACHE_SIZE \<and> hit b s (?c ! i) \<and> (\<forall>j<i. \<not> hit b s (?c ! j))
          | None \<Rightarrow> (\<forall>j<CACHE_SIZE. \<not> hit b s (?c ! j))"
    by (auto simp: find_cacheline_def split: option.splits)
  show ?thesis
  proof (cases r)
    case (Some k)
    with f show ?thesis by (simp add: cache_write_def)
  next
    case None
    with p have nohit: "\<forall>j<CACHE_SIZE. \<not> hit b s (?c ! j)" by simp
    then have "\<not> list_ex (hit b s) ?c"
      using len by (auto simp: list_ex_iff in_set_conv_nth)
    with assms(2) have "list_ex (\<lambda>l. \<not> valid l \<or> time l < ticks st) ?c" by simp
    then have ev: "(\<exists>k<CACHE_SIZE. \<not> valid (?c ! k)) \<or> (\<exists>k<CACHE_SIZE. time (?c ! k) < ticks st)"
      using len by (auto simp: list_ex_iff in_set_conv_nth)
    have st1: "st\<lparr>cache := acquired None ?c\<rparr> = st" by (simp add: acquired_def)
    from choose_evict_result [OF assms(1) ev]
    obtain e st2 where "choose_evict st = Inr (e, st2)" by blast
    with f None show ?thesis by (simp add: cache_write_def st1)
  qed
qed

lemma first_free_full: "first_free (replicate n True) = None"
  by (induction n) simp_all

lemma first_free_skip: "first_free (replicate n True @ False # xs) = Some n"
  by (induction n) simp_all

lemma allocate_last:
  assumes "free_map st = replicate n True @ [False]"
  shows "free_map_allocate st = (Some (of_nat n), st\<lparr>free_map := replicate (Suc n) True\<rparr>)"
proof -
  have "(replicate n True @ [False])[n := True] = replicate (Suc n) True"
    by (simp add: list_update_append replicate_append_same)
  then show ?thesis using assms by (simp add: free_map_allocate_def first_free_skip)
qed

lemma allocate_full:
  assumes "free_map st = replicate n True"
  shows "free_map_allocate st = (None, st)"
  using assms by (simp add: free_map_allocate_def first_free_full)

lemma grow_two_direct:
  assumes "free_map st = replicate 100 True @ [False]" "fs_device st = 1"
  shows "\<exists>d st'. grow_loop (Suc (Suc 0)) junk 2 create_inode0 st = Inr (d, st')
     \<and> free_map st' = replicate 101 True \<and> cache st' = cache st \<and> ticks st' = ticks st
     \<and> fs_device st' = 1 \<and> mem_left st' = mem_left st
     \<and> io_log st' = io_log st @ [BlockWrite 1 100, BlockWrite 1 0]"
proof -
  have d: "direct_usage create_inode0 = 0" "blocks create_inode0 = replicate 12 0"
    by (simp_all add: create_inode0_def fresh_inode_disk_def)
  note a1 = allocate_last [OF assms(1)]
  define st1 where "st1 = block_write 1 100 zeros (st\<lparr>free_map := replicate (Suc 100) True\<rparr>)"
  define d1 where "d1 = create_inode0\<lparr>blocks := (replicate 12 0)[0 := 100],
          direct_usage := 1, sector_usage := sector_usage create_inode0 + 1\<rparr>"
  have s1: "grow_loop (Suc (Suc 0)) junk 2 create_inode0 st = grow_loop (Suc 0) junk 1 d1 st1"
    by (subst grow_loop.simps) (simp add: d a1 assms(2) stored_def st1_def d1_def Let_def)
  have f1: "free_map st1 = replicate 101 True"
    by (simp add: st1_def block_write_def)
  note a2 = allocate_full [OF f1]
  define st2 where "st2 = block_write 1 0 zeros st1"
  define d2 where "d2 = d1\<lparr>blocks := (replicate 12 0)[0 := 100, Suc 0 := 0],
          direct_usage := 2, sector_usage := sector_usage d1 + 1\<rparr>"
  have v1: "fs_device st1 = 1" by (simp add: st1_def block_write_def assms(2))
  have b1: "direct_usage d1 = 1" "blocks d1 = (replicate 12 0)[0 := 100]"
    by (simp_all add: d1_def)
  have s2: "grow_loop (Suc 0) junk 1 d1 st1 = grow_loop 0 junk 0 d2 st2"
    by (subst grow_loop.simps) (simp add: b1 a2 v1 stored_def st2_def d2_def Let_def)
  have s3: "grow_loop 0 junk 0 d2 st2 = Inr (d2, st2)"
    by (subst grow_loop.simps) simp
  show ?thesis
    unfolding s1 s2 s3
    using assms(2) by (simp add: st2_def st1_def block_write_def)
qed

text \<open>
  C3 says that \<open>inode_create\<close> returns false when the free map runs out and gives back
  the sectors it had reserved. The code does otherwise: \<open>inode_disk_grow\<close> ignores the
  result of every \<open>free_map_allocate\<close>, and \<open>inode_create\<close> returns true whenever its
  \<open>calloc\<close> succeeded. Here the device has 101 sectors of which only the last is free,
  and an inode of 1024 bytes (two sectors) is created in sector 50: the call returns
  true and the one sector it got stays reserved: the free map is full afterwards.
\<close>

theorem inode_create_exhausted:
  "\<exists>st'. inode_create (Suc (Suc 0)) junk 50 1024 False (init_state 1 101 100) = Inr (True, st')
      \<and> free_map st' = replicate 101 True"
proof -
  define st1 where "st1 = (init_state 1 101 100)\<lparr>mem_left := 999\<rparr>"
  have m: "malloc (init_state 1 101 100) = (True, st1)"
    by (simp add: malloc_def init_state_def st1_def)
  have fm: "free_map st1 = replicate 100 True @ [False]" and dv: "fs_device st1 = 1"
    and lg: "io_log st1 = []"
    by (simp_all add: st1_def init_state_def)
  have r: "s32 (bytes_to_sectors (length_bytes create_inode0) - uint (sector_usage create_inode0)) = 2"
    by (simp add: create_inode0_def bytes_to_sectors_def s32_def cdiv_def BLOCK_SECTOR_SIZE_def)
  from grow_two_direct [OF fm dv, of junk]
  obtain d2 st2 where g: "inode_disk_grow (Suc (Suc 0)) junk create_inode0 st1 = Inr (d2, st2)"
    and f2: "free_map st2 = replicate 101 True" and c2: "cache st2 = cache st1"
    and t2: "ticks st2 = ticks st1" and v2: "fs_device st2 = 1"
    and l2: "io_log st2 = [BlockWrite 1 100, BlockWrite 1 0]"
    unfolding inode_disk_grow_def r lg by auto
  have "lines_free st2"
    by (simp add: lines_free_def c2 st1_def init_state_def calloc_line_def list_all_length)
  moreover have "list_ex (\<lambda>l. \<not> valid l \<or> time l < ticks st2) (cache st2)"
    by (simp add: list_ex_iff c2 st1_def init_state_def calloc_line_def CACHE_SIZE_def)
  ultimately obtain st3 where
    cw: "cache_write (fs_device st2) 50 (bytes_of_inode_disk d2) st2 = Inr st3"
    using cache_write_result by blast
  from cache_write_frame [OF cw] have f3: "free_map st3 = replicate 101 True"
    by (simp add: cache_frame_def f2)
  have "inode_create (Suc (Suc 0)) junk 50 1024 False (init_state 1 101 100) = Inr (True, free st3)"
    using m g cw by (simp add: inode_create_def create_inode0_def)
  with f3 show ?thesis by (simp add: free_def)
qed

subsection \<open>The cache after a read and after a write\<close>

lemma lines_free_upd:
  assumes "lines_free st" "k < CACHE_SIZE" "sema l = 1"
  shows "lines_free (st\<lparr>cache := (cache st)[k := l]\<rparr>)"
  using assms by (auto simp: lines_free_def list_all_length nth_list_update)

lemma find_hit_upd:
  assumes "k < length c" "hit b s l" "\<forall>j<k. \<not> hit b s (c ! j)"
  shows "find (hit b s) (c[k := l]) = Some l"
proof -
  have "find (hit b s) (c[k := l]) = Some (c[k := l] ! k)"
    using assms by (intro find_first_hit) auto
  then show ?thesis using assms(1) by simp
qed

lemma list_ex_upd: "k < length c \<Longrightarrow> P l \<Longrightarrow> list_ex P (c[k := l])"
  by (auto simp: list_ex_iff set_update_memI)

lemma cache_write_post:
  assumes "lines_free st"
    and "list_ex (hit b s) (cache st) \<or> list_ex (\<lambda>l. \<not> valid l \<or> time l < ticks st) (cache st)"
  shows "\<exists>st'. cache_write b s buf st = Inr st' \<and> lines_free st' \<and> sector_view b s st' = buf
     \<and> list_ex (hit b s) (cache st') \<and> cache_frame st st'"
proof -
  let ?c = "cache st"
  have len: "length ?c = CACHE_SIZE" using assms(1) by (simp add: lines_free_def)
  from find_cacheline_from_scan [OF assms(1), of 0 b s]
  obtain r where f: "find_cacheline b s st = Inr (r, st\<lparr>cache := acquired r ?c\<rparr>)"
    and p: "case r of
            Some i \<Rightarrow> i < CACHE_SIZE \<and> hit b s (?c ! i) \<and> (\<forall>j<i. \<not> hit b s (?c ! j))
          | None \<Rightarrow> (\<forall>j<CACHE_SIZE. \<not> hit b s (?c ! j))"
    by (auto simp: find_cacheline_def split: option.splits)
  show ?thesis
  proof (cases r)
    case (Some k)
    with p have k: "k < CACHE_SIZE" "hit b s (?c ! k)" "\<forall>j<k. \<not> hit b s (?c ! j)" by simp_all
    define l where "l = (?c ! k)\<lparr>disk_data := buf, time := ticks st, dirty := True, sema := 1\<rparr>"
    have sk: "sema (?c ! k) = 1" using assms(1) k(1) by (rule lines_free_nth)
    have cw: "cache_write b s buf st = Inr (st\<lparr>cache := ?c[k := l]\<rparr>)"
      using f Some k(1) len sk
      by (simp add: cache_write_def sema_up_def line_upd_def acquired_def l_def)
    have hl: "hit b s l" using k(2) by (simp add: l_def hit_def)
    have "lines_free (st\<lparr>cache := ?c[k := l]\<rparr>)"
      using assms(1) k(1) sk by (intro lines_free_upd) (simp_all add: l_def)
    moreover have "sector_view b s (st\<lparr>cache := ?c[k := l]\<rparr>) = buf"
      using find_hit_upd [of k ?c b s l] k len hl by (simp add: sector_view_def l_def)
    moreover have "list_ex (hit b s) (cache (st\<lparr>cache := ?c[k := l]\<rparr>))"
      using k(1) len hl by (simp add: list_ex_upd)
    moreover have "cache_frame st (st\<lparr>cache := ?c[k := l]\<rparr>)" by (simp add: cache_frame_def)
    ultimately show ?thesis using cw by blast
  next
    case None
    with p have nohit: "\<forall>j<CACHE_SIZE. \<not> hit b s (?c ! j)" by simp
    then have "\<not> list_ex (hit b s) ?c"
      using len by (auto simp: list_ex_iff in_set_conv_nth)
    with assms(2) have "list_ex (\<lambda>l. \<not> valid l \<or> time l < ticks st) ?c" by simp
    then have ev: "(\<exists>k<CACHE_SIZE. \<not> valid (?c ! k)) \<or> (\<exists>k<CACHE_SIZE. time (?c ! k) < ticks st)"
      using len by (auto simp: list_ex_iff in_set_conv_nth)
    have st1: "st\<lparr>cache := acquired None ?c\<rparr> = st" by (simp add: acquired_def)
    from choose_evict_result [OF assms(1) ev]
    obtain e where e: "e < CACHE_SIZE"
      and ce: "choose_evict st =
         Inr (e, if valid (?c ! e) \<and> dirty (?c ! e)
               then block_write (block (?c ! e)) (disk_sector (?c ! e))
                      (disk_data (?c ! e)) (st\<lparr>cache := acquired (Some e) ?c\<rparr>)
               else st\<lparr>cache := acquired (Some e) ?c\<rparr>)"
      by blast
    define st2 where "st2 = (if valid (?c ! e) \<and> dirty (?c ! e)
               then block_write (block (?c ! e)) (disk_sector (?c ! e))
                      (disk_data (?c ! e)) (st\<lparr>cache := acquired (Some e) ?c\<rparr>)
               else st\<lparr>cache := acquired (Some e) ?c\<rparr>)"
    have c2: "cache st2 = acquired (Some e) ?c" and t2: "ticks st2 = ticks st"
      by (simp_all add: st2_def block_write_def)
    have f2: "cache_frame st st2" by (simp add: st2_def cache_frame_def block_write_def)
    define l where "l = (?c ! e)\<lparr>valid := True, disk_sector := s, block := b,
        disk_data := buf, time := ticks st, dirty := True, sema := 1\<rparr>"
    define st' where "st' = st2\<lparr>cache := ?c[e := l]\<rparr>"
    have ce': "choose_evict st = Inr (e, st2)" using ce by (simp add: st2_def)
    define st3 where "st3 = line_upd e (\<lambda>l. l\<lparr>dirty := True, valid := True,
                                    disk_sector := s, block := b\<rparr>) st2"
    have "sema_up e (line_upd e (\<lambda>l. l\<lparr>disk_data := buf, time := ticks st3, dirty := True\<rparr>) st3)
        = st'"
      using e len by (simp add: sema_up_def line_upd_def c2 t2 acquired_def st'_def l_def st3_def)
    then have cw: "cache_write b s buf st = Inr st'"
      using f None ce' by (simp add: cache_write_def st1 st3_def)
    have hl: "hit b s l" by (simp add: l_def hit_def)
    have "lines_free (st\<lparr>cache := ?c[e := l]\<rparr>)"
      using assms(1) e by (intro lines_free_upd) (simp_all add: l_def)
    then have "lines_free st'" by (simp add: lines_free_def st'_def)
    moreover have "sector_view b s st' = buf"
      using find_hit_upd [of e ?c b s l] e len hl nohit
      by (simp add: sector_view_def st'_def) (simp add: l_def)
    moreover have "list_ex (hit b s) (cache st')"
      using e len hl by (simp add: st'_def list_ex_upd)
    moreover have "cache_frame st st'" using f2 by (simp add: cache_frame_def st'_def)
    ultimately show ?thesis using cw by blast
  qed
qed


lemma put_read_ahead_buffer_post:
  assumes "unat (read_head_buffer_n st) < READ_AHEAD_BUFFER_SIZE"
  shows "\<exists>st'. put_read_ahead_buffer b s st = Inr st' \<and> cache st' = cache st
     \<and> dev_data st' = dev_data st \<and> cache_frame (st\<lparr>read_head_buffer := read_head_buffer st',
            read_head_buffer_n := read_head_buffer_n st'\<rparr>) st'
     \<and> read_head_buffer_n st' = read_head_buffer_n st + 1"
  using assms by (simp add: put_read_ahead_buffer_def cache_frame_def)

lemma cache_read_post:
  assumes "cache_ready b s st"
  shows "\<exists>st'. cache_read b s st = Inr (sector_view b s st, st') \<and> lines_free st'
     \<and> sector_view b s st' = sector_view b s st \<and> list_ex (hit b s) (cache st')
     \<and> read_head_buffer_n st' = read_head_buffer_n st + 1
     \<and> fs_device st' = fs_device st \<and> inode_heap st' = inode_heap st
     \<and> mem_left st' = mem_left st \<and> ticks st' = ticks st"
proof -
  let ?c = "cache st"
  have lf: "lines_free st" and room: "unat (read_head_buffer_n st) < READ_AHEAD_BUFFER_SIZE"
    and some: "list_ex (hit b s) ?c \<or> list_ex (\<lambda>l. \<not> valid l \<or> time l < ticks st) ?c"
    using assms by (simp_all add: cache_ready_def)
  have len: "length ?c = CACHE_SIZE" using lf by (simp add: lines_free_def)
  have fin: "\<exists>st'. cache_read b s st = Inr (sector_view b s st, st') \<and> lines_free st'
     \<and> sector_view b s st' = sector_view b s st \<and> list_ex (hit b s) (cache st')
     \<and> read_head_buffer_n st' = read_head_buffer_n st + 1
     \<and> fs_device st' = fs_device st \<and> inode_heap st' = inode_heap st
     \<and> mem_left st' = mem_left st \<and> ticks st' = ticks st"
    if a: "cache_frame st st7" "lines_free st7" "sector_view b s st7 = sector_view b s st"
      "list_ex (hit b s) (cache st7)"
      "\<And>st'. put_read_ahead_buffer b (s + 1) st7 = Inr st'
          \<Longrightarrow> cache_read b s st = Inr (sector_view b s st, st')"
    for st7
  proof -
    have "unat (read_head_buffer_n st7) < READ_AHEAD_BUFFER_SIZE"
      using room a(1) by (simp add: cache_frame_def)
    from put_read_ahead_buffer_post [OF this, of b "s + 1"]
    obtain st' where p: "put_read_ahead_buffer b (s + 1) st7 = Inr st'"
      and c: "cache st' = cache st7" and d: "dev_data st' = dev_data st7"
      and n: "read_head_buffer_n st' = read_head_buffer_n st7 + 1"
      and fr: "cache_frame (st7\<lparr>read_head_buffer := read_head_buffer st',
            read_head_buffer_n := read_head_buffer_n st'\<rparr>) st'"
      by blast
    have "lines_free st'" using a(2) c by (simp add: lines_free_def)
    moreover have "sector_view b s st' = sector_view b s st7"
      unfolding sector_view_def c d by (rule refl)
    then have "sector_view b s st' = sector_view b s st" using a(3) by simp
    moreover have "list_ex (hit b s) (cache st')" using a(4) c by simp
    moreover have "read_head_buffer_n st' = read_head_buffer_n st + 1"
      using n a(1) by (simp add: cache_frame_def)
    moreover have "fs_device st' = fs_device st \<and> inode_heap st' = inode_heap st
       \<and> mem_left st' = mem_left st \<and> ticks st' = ticks st"
      using fr a(1) by (simp add: cache_frame_def)
    ultimately show ?thesis using a(5) [OF p] by blast
  qed
  from find_cacheline_from_scan [OF lf, of 0 b s]
  obtain r where f: "find_cacheline b s st = Inr (r, st\<lparr>cache := acquired r ?c\<rparr>)"
    and p: "case r of
            Some i \<Rightarrow> i < CACHE_SIZE \<and> hit b s (?c ! i) \<and> (\<forall>j<i. \<not> hit b s (?c ! j))
          | None \<Rightarrow> (\<forall>j<CACHE_SIZE. \<not> hit b s (?c ! j))"
    by (auto simp: find_cacheline_def split: option.splits)
  show ?thesis
  proof (cases r)
    case (Some k)
    with p have k: "k < CACHE_SIZE" "hit b s (?c ! k)" "\<forall>j<k. \<not> hit b s (?c ! j)" by simp_all
    have v: "sector_view b s st = disk_data (?c ! k)"
      using find_first_hit [of k ?c "hit b s"] k len by (simp add: sector_view_def)
    have sk: "sema (?c ! k) = 1" using lf k(1) by (rule lines_free_nth)
    define l where "l = (?c ! k)\<lparr>time := ticks st, sema := 1\<rparr>"
    define st5 where "st5 = st\<lparr>cache := acquired (Some k) ?c\<rparr>"
    define st7 where "st7 = st\<lparr>cache := ?c[k := l]\<rparr>"
    have e7: "sema_up k (line_upd k (\<lambda>l. l\<lparr>time := ticks st5\<rparr>) st5) = st7"
      using k(1) len by (simp add: sema_up_def line_upd_def st5_def st7_def acquired_def l_def)
    have d: "disk_data (cache st5 ! k) = disk_data (?c ! k)"
      using k len by (simp add: st5_def acquired_def)
    have hl: "hit b s l" using k(2) by (simp add: l_def hit_def)
    show ?thesis
    proof (rule fin [of st7])
      show "cache_frame st st7" by (simp add: cache_frame_def st7_def)
      show "lines_free st7" unfolding st7_def
        using lf k(1) by (intro lines_free_upd) (simp_all add: l_def)
      show "sector_view b s st7 = sector_view b s st"
        using find_hit_upd [of k ?c b s l] k len hl v
        by (simp add: sector_view_def st7_def) (simp add: l_def)
      show "list_ex (hit b s) (cache st7)" using k(1) len hl by (simp add: st7_def list_ex_upd)
      show "cache_read b s st = Inr (sector_view b s st, st')"
        if "put_read_ahead_buffer b (s + 1) st7 = Inr st'" for st'
        using that f Some d v e7 by (simp add: cache_read_def Let_def st5_def [symmetric])
    qed
  next
    case None
    with p have nohit: "\<forall>j<CACHE_SIZE. \<not> hit b s (?c ! j)" by simp
    then have nf: "find (hit b s) ?c = None" using len by (intro find_no_hit) simp
    then have v: "sector_view b s st = dev_data st b s" by (simp add: sector_view_def)
    have st1: "st\<lparr>cache := acquired None ?c\<rparr> = st" by (simp add: acquired_def)
    have "\<not> list_ex (hit b s) ?c" using nf by (simp add: find_None_iff list_ex_iff)
    with some have "list_ex (\<lambda>l. \<not> valid l \<or> time l < ticks st) ?c" by simp
    then have ev: "(\<exists>k<CACHE_SIZE. \<not> valid (?c ! k)) \<or> (\<exists>k<CACHE_SIZE. time (?c ! k) < ticks st)"
      using len by (auto simp: list_ex_iff in_set_conv_nth)
    from choose_evict_result [OF lf ev]
    obtain e where e: "e < CACHE_SIZE"
      and ce: "choose_evict st =
         Inr (e, if valid (?c ! e) \<and> dirty (?c ! e)
               then block_write (block (?c ! e)) (disk_sector (?c ! e))
                      (disk_data (?c ! e)) (st\<lparr>cache := acquired (Some e) ?c\<rparr>)
               else st\<lparr>cache := acquired (Some e) ?c\<rparr>)"
      by blast
    define st2 where "st2 = (if valid (?c ! e) \<and> dirty (?c ! e)
               then block_write (block (?c ! e)) (disk_sector (?c ! e))
                      (disk_data (?c ! e)) (st\<lparr>cache := acquired (Some e) ?c\<rparr>)
               else st\<lparr>cache := acquired (Some e) ?c\<rparr>)"
    have ce': "choose_evict st = Inr (e, st2)" using ce by (simp add: st2_def)
    have c2: "cache st2 = acquired (Some e) ?c" and t2: "ticks st2 = ticks st"
      by (simp_all add: st2_def block_write_def)
    have f2: "cache_frame st st2"
      by (simp add: st2_def cache_frame_def block_write_def)
    have ne: "\<not> hit b s (?c ! e)" using nohit e by simp
    have dev: "dev_data st2 b s = dev_data st b s"
      using ne by (auto simp: st2_def block_write_def hit_def)
    define st3 where "st3 = line_upd e (\<lambda>l. l\<lparr>dirty := False, valid := True,
                                        disk_sector := s, block := b\<rparr>) st2"
    define st4 where "st4 = st3\<lparr>io_log := io_log st3 @ [BlockRead b s]\<rparr>"
    have br: "block_read b s st3 = (dev_data st b s, st4)"
      using dev by (simp add: block_read_def st3_def st4_def line_upd_def)
    define st5 where "st5 = line_upd e (\<lambda>l. l\<lparr>disk_data := dev_data st b s\<rparr>) st4"
    define l where "l = (?c ! e)\<lparr>dirty := False, valid := True, disk_sector := s, block := b,
        disk_data := dev_data st b s, time := ticks st, sema := 1\<rparr>"
    define st7 where "st7 = st4\<lparr>cache := ?c[e := l]\<rparr>"
    have e7: "sema_up e (line_upd e (\<lambda>l. l\<lparr>time := ticks st5\<rparr>) st5) = st7"
      using e len
      by (simp add: sema_up_def line_upd_def st5_def st4_def st3_def c2 t2 acquired_def st7_def l_def)
    have d: "disk_data (cache st5 ! e) = dev_data st b s"
      using e len by (simp add: st5_def st4_def st3_def line_upd_def c2 acquired_def)
    have hl: "hit b s l" by (simp add: l_def hit_def)
    have d7: "dev_data st7 = dev_data st2"
      by (simp add: st7_def st4_def st3_def line_upd_def)
    show ?thesis
    proof (rule fin [of st7])
      show "cache_frame st st7"
        using f2 by (simp add: cache_frame_def st7_def st4_def st3_def line_upd_def)
      have "lines_free (st\<lparr>cache := ?c[e := l]\<rparr>)"
        using lf e by (intro lines_free_upd) (simp_all add: l_def)
      then show "lines_free st7" by (simp add: lines_free_def st7_def)
      show "sector_view b s st7 = sector_view b s st"
        using find_hit_upd [of e ?c b s l] e len hl nohit v
        by (simp add: sector_view_def st7_def) (simp add: l_def)
      show "list_ex (hit b s) (cache st7)" using e len hl by (simp add: st7_def list_ex_upd)
      show "cache_read b s st = Inr (sector_view b s st, st')"
        if "put_read_ahead_buffer b (s + 1) st7 = Inr st'" for st'
        using that f None ce' br d v e7
        by (simp add: cache_read_def Let_def st1 st3_def [symmetric] st5_def [symmetric])
    qed
  qed
qed

subsection \<open>Writing and reading back on a full disk\<close>

lemma replicate_upd_same: "(replicate n x)[i := x] = replicate n x"
  by (cases "i < n") (auto intro!: nth_equalityI simp: nth_list_update)

lemma grow_two_full:
  assumes "free_map st = replicate n True" "fs_device st = 1"
    "direct_usage d = 0" "blocks d = replicate 12 0"
  shows "grow_loop (Suc (Suc 0)) junk 2 d st =
     Inr (d\<lparr>blocks := replicate 12 0, direct_usage := 2, sector_usage := sector_usage d + 1 + 1\<rparr>,
          block_write 1 0 zeros (block_write 1 0 zeros st))"
proof -
  note a1 = allocate_full [OF assms(1)]
  define st1 where "st1 = block_write 1 0 zeros st"
  define d1 where "d1 = d\<lparr>blocks := replicate 12 0, direct_usage := 1,
      sector_usage := sector_usage d + 1\<rparr>"
  have s1: "grow_loop (Suc (Suc 0)) junk 2 d st = grow_loop (Suc 0) junk 1 d1 st1"
    by (subst grow_loop.simps) (simp add: assms a1 stored_def st1_def d1_def Let_def replicate_upd_same)
  have f1: "free_map st1 = replicate n True" and v1: "fs_device st1 = 1"
    by (simp_all add: st1_def block_write_def assms)
  note a2 = allocate_full [OF f1]
  have b1: "direct_usage d1 = 1" "blocks d1 = replicate 12 0" by (simp_all add: d1_def)
  define d2 where "d2 = d1\<lparr>blocks := replicate 12 0, direct_usage := 2,
      sector_usage := sector_usage d1 + 1\<rparr>"
  have s2: "grow_loop (Suc 0) junk 1 d1 st1 = grow_loop 0 junk 0 d2 (block_write 1 0 zeros st1)"
    by (subst grow_loop.simps) (simp add: b1 a2 v1 stored_def d2_def Let_def replicate_upd_same)
  have s3: "grow_loop 0 junk 0 d2 (block_write 1 0 zeros st1) = Inr (d2, block_write 1 0 zeros st1)"
    by (subst grow_loop.simps) simp
  show ?thesis unfolding s1 s2 s3 by (simp add: d2_def d1_def st1_def)
qed


lemma cmod_512: "cmod 0 512 = 0" "cmod 512 512 = 0"
  by (simp_all add: cmod_def cdiv_def)

lemma cdiv_512: "cdiv 0 512 = 0" "cdiv 512 512 = 1"
  by (simp_all add: cdiv_def)

text \<open>
  C2 says that writing \<open>L\<close> bytes at offset 0 and reading them back yields the bytes
  written. On a full disk the code does otherwise. The file is empty and the free map has
  no free sector; 1024 bytes are written, 512 ones and then 512 twos. Growth ignores that
  both allocations fail, so both data pointers keep the value 0 and both halves go to
  sector 0. \<open>inode_write_at\<close> reports 1024 bytes written, \<open>inode_read_at\<close> returns 1024
  bytes, and they are the second half twice.
\<close>

theorem write_read_full_disk:
  "\<exists>st1 st2.
     inode_write_at (Suc (Suc 0)) junk 0 (replicate 512 1 @ replicate 512 2) 1024 0 full_disk_state
       = Inr (1024, st1)
     \<and> inode_read_at 0 1024 0 st1 = Inr (1024, replicate 512 2 @ replicate 512 2, st2)"
proof -
  let ?B = "replicate 512 (1::byte) @ replicate 512 2"
  let ?st = full_disk_state
  define d0 where "d0 = (data empty_file)\<lparr>length_bytes := 1024\<rparr>"
  define d2 where "d2 = d0\<lparr>blocks := replicate 12 0, direct_usage := 2,
      sector_usage := sector_usage d0 + 1 + 1\<rparr>"
  define ino where "ino = empty_file\<lparr>data := d2\<rparr>"
  define stg where "stg = block_write 1 0 zeros (block_write 1 0 zeros ?st)"
  define st0 where "st0 = stg\<lparr>inode_heap := (inode_heap stg)(0 \<mapsto> ino)\<rparr>"
  have h: "inode_heap ?st 0 = Some empty_file"
    by (simp add: full_disk_state_def)
  have r: "s32 (bytes_to_sectors (length_bytes d0) - uint (sector_usage d0)) = 2"
    by (simp add: d0_def empty_file_def fresh_inode_disk_def bytes_to_sectors_def s32_def cdiv_def
          BLOCK_SECTOR_SIZE_def)
  have g: "inode_disk_grow (Suc (Suc 0)) junk d0 ?st = Inr (d2, stg)"
    unfolding inode_disk_grow_def r d2_def stg_def
    by (rule grow_two_full [where n = 101])
       (simp_all add: full_disk_state_def init_state_def d0_def empty_file_def fresh_inode_disk_def)
  have lf0: "lines_free st0"
    by (simp add: lines_free_def st0_def stg_def block_write_def full_disk_state_def
          init_state_def calloc_line_def list_all_length)
  have ev0: "list_ex (\<lambda>l. \<not> valid l \<or> time l < ticks st0) (cache st0)"
    by (simp add: list_ex_iff st0_def stg_def block_write_def full_disk_state_def
          init_state_def calloc_line_def CACHE_SIZE_def)
  have dv0: "fs_device st0 = 1" and n0: "read_head_buffer_n st0 = 0"
    and h0: "inode_heap st0 0 = Some ino"
    by (simp_all add: st0_def stg_def block_write_def full_disk_state_def init_state_def)
  have il: "inode_length ino = 1024" and bl: "blocks (data ino) = replicate 12 0"
    by (simp_all add: inode_length_def ino_def d2_def d0_def)
  have b0: "\<And>st. byte_to_sector ino 0 st = Inr (0, st)"
    and b1: "\<And>st. byte_to_sector ino 512 st = Inr (0, st)"
    using il bl by (simp_all add: byte_to_sector_def BLOCK_SECTOR_SIZE_def cdiv_512 inode_length_def)
  from cache_write_post [OF lf0 disjI2 [OF ev0], of "Suc 0" 0 "replicate 512 1"]
  obtain sa where wa: "cache_write (Suc 0) 0 (replicate 512 1) st0 = Inr sa" and lfa: "lines_free sa"
    and ha: "list_ex (hit (Suc 0) 0) (cache sa)" and fa: "cache_frame st0 sa"
    by blast
  from cache_write_post [OF lfa disjI1 [OF ha], of "replicate 512 2"]
  obtain sb where wb: "cache_write (Suc 0) 0 (replicate 512 2) sa = Inr sb" and lfb: "lines_free sb"
    and vb: "sector_view (Suc 0) 0 sb = replicate 512 2"
    and hb: "list_ex (hit (Suc 0) 0) (cache sb)" and fb: "cache_frame sa sb"
    by blast
  have fab: "cache_frame st0 sb" using fa fb by (rule cache_frame_trans)
  have dva: "fs_device sa = 1" and dvb: "fs_device sb = 1"
    using fa fab dv0 by (simp_all add: cache_frame_def)
  have w3: "write_loop ino ?B 0 1024 1024 False sb = Inr (1024, False, sb)"
    by (subst write_loop.simps) simp
  have w2: "write_loop ino ?B 512 512 512 False sa = Inr (1024, False, sb)"
    by (subst write_loop.simps)
       (simp add: b1 il BLOCK_SECTOR_SIZE_def cmod_512 s32_def Let_def dva wb w3)
  have w1: "write_loop ino ?B 1024 0 0 False st0 = Inr (1024, False, sb)"
    by (subst write_loop.simps)
       (simp add: b0 il BLOCK_SECTOR_SIZE_def cmod_512 s32_def Let_def dv0 wa w2)
  have dw: "deny_write_cnt empty_file = 0" and el: "inode_length empty_file = 0"
    by (simp_all add: empty_file_def inode_length_def fresh_inode_disk_def)
  have W: "inode_write_at (Suc (Suc 0)) junk 0 ?B 1024 0 ?st = Inr (1024, sb)"
    using h dw el g w1
    by (simp add: inode_write_at_def s32_def d0_def [symmetric] ino_def [symmetric]
          st0_def [symmetric])
  have hb0: "inode_heap sb 0 = Some ino" and nb: "read_head_buffer_n sb = 0"
    using fab h0 n0 by (simp_all add: cache_frame_def)
  have "cache_ready (Suc 0) 0 sb"
    using lfb hb nb by (simp add: cache_ready_def READ_AHEAD_BUFFER_SIZE_def)
  from cache_read_post [OF this]
  obtain sc where ra: "cache_read (Suc 0) 0 sb = Inr (replicate 512 2, sc)" and lfc: "lines_free sc"
    and vc: "sector_view (Suc 0) 0 sc = replicate 512 2"
    and hc: "list_ex (hit (Suc 0) 0) (cache sc)" and nc: "read_head_buffer_n sc = 1"
    and dvc: "fs_device sc = 1"
    unfolding vb using nb dvb by auto
  have "cache_ready (Suc 0) 0 sc"
    using lfc hc nc by (simp add: cache_ready_def READ_AHEAD_BUFFER_SIZE_def)
  from cache_read_post [OF this]
  obtain sd where rb: "cache_read (Suc 0) 0 sc = Inr (replicate 512 2, sd)"
    unfolding vc by auto
  have r3: "\<And>buf. read_loop ino 0 1024 1024 buf False sd = Inr (1024, buf, False, sd)"
    by (subst read_loop.simps) simp
  have r2: "\<And>buf. read_loop ino 512 512 512 buf False sc
      = Inr (1024, buf @ replicate 512 2, False, sd)"
    by (subst read_loop.simps)
       (simp add: b1 il BLOCK_SECTOR_SIZE_def cmod_512 s32_def Let_def dvc rb r3)
  have r1: "read_loop ino 1024 0 0 [] False sb
      = Inr (1024, replicate 512 2 @ replicate 512 2, False, sd)"
    by (subst read_loop.simps)
       (simp add: b0 il BLOCK_SECTOR_SIZE_def cmod_512 s32_def Let_def dvb ra r2)
  have R: "inode_read_at 0 1024 0 sb = Inr (1024, replicate 512 2 @ replicate 512 2, sd)"
    using hb0 r1 by (simp add: inode_read_at_def)
  from W R show ?thesis by blast
qed

subsection \<open>A turn of the read-ahead consumer\<close>

lemma read_ahead_step_returns:
  assumes nz: "read_head_buffer_n st \<noteq> 0"
    and b: "unat (read_head_buffer_n st - 1) < READ_AHEAD_BUFFER_SIZE"
    and rdy: "request_ready (read_head_buffer st ! unat (read_head_buffer_n st - 1)) st"
  shows "\<exists>st'. read_ahead_step st
            = Inr (read_head_buffer st ! unat (read_head_buffer_n st - 1), st')"
proof -
  let ?el = "read_head_buffer st ! unat (read_head_buffer_n st - 1)"
  let ?st1 = "st\<lparr>read_head_buffer_n := read_head_buffer_n st - 1\<rparr>"
  let ?c = "cache st"
  have lf: "lines_free ?st1" using rdy by (simp add: request_ready_def lines_free_def)
  have len: "length ?c = CACHE_SIZE" using lf by (simp add: lines_free_def)
  show ?thesis
  proof (cases "unat (elem_sector ?el) < block_size (elem_block ?el) st")
    case False
    then have "read_ahead_step st = Inr (?el, ?st1)"
      using nz b by (simp add: read_ahead_step_def Let_def block_size_def)
    then show ?thesis by blast
  next
    case True
    then have inr: "unat (elem_sector ?el) < block_size (elem_block ?el) ?st1"
      by (simp add: block_size_def)
    from True rdy
    have some: "list_ex (hit (elem_block ?el) (elem_sector ?el)) ?c
                \<or> list_ex (\<lambda>l. \<not> valid l \<or> time l < ticks st) ?c"
      by (simp add: request_ready_def)
    from find_cacheline_from_scan [OF lf, of 0 "elem_block ?el" "elem_sector ?el"]
    obtain r where f: "find_cacheline (elem_block ?el) (elem_sector ?el) ?st1
                         = Inr (r, ?st1\<lparr>cache := acquired r ?c\<rparr>)"
      and p: "case r of
            Some i \<Rightarrow> i < CACHE_SIZE
          | None \<Rightarrow> (\<forall>j<CACHE_SIZE. \<not> hit (elem_block ?el) (elem_sector ?el) (?c ! j))"
      by (auto simp: find_cacheline_def split: option.splits)
    show ?thesis
    proof (cases r)
      case (Some k)
      have "read_ahead_step st = Inr (?el, sema_up k (?st1\<lparr>cache := acquired (Some k) ?c\<rparr>))"
        using nz b inr f Some by (simp add: read_ahead_step_def Let_def)
      then show ?thesis by blast
    next
      case None
      with p have "\<forall>j<CACHE_SIZE. \<not> hit (elem_block ?el) (elem_sector ?el) (?c ! j)" by simp
      then have "\<not> list_ex (hit (elem_block ?el) (elem_sector ?el)) ?c"
        using len by (auto simp: list_ex_iff in_set_conv_nth)
      with some have "list_ex (\<lambda>l. \<not> valid l \<or> time l < ticks st) ?c" by simp
      then have ev: "(\<exists>k<CACHE_SIZE. \<not> valid (cache ?st1 ! k))
                     \<or> (\<exists>k<CACHE_SIZE. time (cache ?st1 ! k) < ticks ?st1)"
        using len by (auto simp: list_ex_iff in_set_conv_nth)
      have st1: "?st1\<lparr>cache := acquired None ?c\<rparr> = ?st1" by (simp add: acquired_def)
      from choose_evict_result [OF lf ev]
      obtain e st3 where ce: "choose_evict ?st1 = Inr (e, st3)" by blast
      obtain d st5 where br: "block_read (elem_block ?el) (elem_sector ?el)
            (line_upd e (\<lambda>l. l\<lparr>dirty := False, valid := True,
               disk_sector := elem_sector ?el, block := elem_block ?el\<rparr>) st3) = (d, st5)"
        by (cases "block_read (elem_block ?el) (elem_sector ?el)
            (line_upd e (\<lambda>l. l\<lparr>dirty := False, valid := True,
               disk_sector := elem_sector ?el, block := elem_block ?el\<rparr>) st3)")
      have "read_ahead_step st
              = Inr (?el, sema_up e (line_upd e (\<lambda>l. l\<lparr>disk_data := d\<rparr>) st5))"
        using nz b inr f None ce br by (simp add: read_ahead_step_def Let_def st1)
      then show ?thesis by blast
    qed
  qed
qed

lemma pending_queued:
  "pending queued_state = [\<lparr>elem_sector = 5000, elem_block = 1\<rparr>, \<lparr>elem_sector = 8, elem_block = 1\<rparr>]"
  by code_simp

lemma lines_free_queued: "lines_free queued_state"
  by (simp add: lines_free_def queued_state_def init_state_def calloc_line_def list_all_length)

text \<open>
  C8. While the buffer is well formed (64 slots, a count of at most 64): it holds at most
  \<open>READ_AHEAD_BUFFER_SIZE\<close> pending requests; \<open>put_read_ahead_buffer\<close> blocks exactly
  when it is full, and otherwise appends its request to the pending ones and keeps the
  buffer well formed; a turn of the consumer that completes has removed the last pending
  request, which is the one inserted most recently, and keeps the buffer well formed; when
  a request is pending and the cache can serve the last one, the turn does complete, and
  it removes that request and no other; the consumer waits while nothing is pending.
\<close>

theorem read_ahead_buffer_lifo:
  assumes "buffer_ok st"
  shows "length (pending st) \<le> READ_AHEAD_BUFFER_SIZE
    \<and> ((put_read_ahead_buffer b s st = Inl Blocked)
         = (length (pending st) = READ_AHEAD_BUFFER_SIZE))
    \<and> (length (pending st) < READ_AHEAD_BUFFER_SIZE \<longrightarrow>
         (\<exists>st'. put_read_ahead_buffer b s st = Inr st' \<and> buffer_ok st'
            \<and> pending st' = pending st @ [\<lparr>elem_sector = s, elem_block = b\<rparr>]))
    \<and> (\<forall>el st'. read_ahead_step st = Inr (el, st') \<longrightarrow>
          buffer_ok st' \<and> pending st = pending st' @ [el])
    \<and> (pending st \<noteq> [] \<and> request_ready (last (pending st)) st \<longrightarrow>
          (\<exists>st'. read_ahead_step st = Inr (last (pending st), st') \<and> buffer_ok st'
             \<and> pending st' = butlast (pending st)))
    \<and> (pending st = [] \<longrightarrow> read_ahead_step st = Inl Blocked)"
proof -
  have len: "length (read_head_buffer st) = READ_AHEAD_BUFFER_SIZE"
    and n: "unat (read_head_buffer_n st) \<le> READ_AHEAD_BUFFER_SIZE"
    using assms by (simp_all add: buffer_ok_def)
  have lp: "length (pending st) = unat (read_head_buffer_n st)"
    using len n by (simp add: pending_def)
  have bound: "length (pending st) \<le> READ_AHEAD_BUFFER_SIZE" using lp n by simp
  have full: "(put_read_ahead_buffer b s st = Inl Blocked)
         = (length (pending st) = READ_AHEAD_BUFFER_SIZE)"
    using lp n by (auto simp: put_read_ahead_buffer_def)
  have put: "\<exists>st'. put_read_ahead_buffer b s st = Inr st' \<and> buffer_ok st'
            \<and> pending st' = pending st @ [\<lparr>elem_sector = s, elem_block = b\<rparr>]"
    if "length (pending st) < READ_AHEAD_BUFFER_SIZE"
  proof -
    from that have lt: "unat (read_head_buffer_n st) < READ_AHEAD_BUFFER_SIZE" using lp by simp
    then have s: "unat (read_head_buffer_n st + 1) = Suc (unat (read_head_buffer_n st))"
      by (simp add: unat_succ READ_AHEAD_BUFFER_SIZE_def)
    define st' where "st' = st\<lparr>read_head_buffer :=
                      (read_head_buffer st)[unat (read_head_buffer_n st) :=
                         \<lparr>elem_sector = s, elem_block = b\<rparr>],
                   read_head_buffer_n := read_head_buffer_n st + 1\<rparr>"
    have "put_read_ahead_buffer b s st = Inr st'"
      using lt by (simp add: put_read_ahead_buffer_def st'_def)
    moreover have "buffer_ok st'"
      using lt len s by (simp add: buffer_ok_def st'_def)
    moreover have "pending st' = pending st @ [\<lparr>elem_sector = s, elem_block = b\<rparr>]"
      using lt len s by (simp add: pending_def st'_def take_Suc_conv_app_nth)
    ultimately show ?thesis by blast
  qed
  have pop: "buffer_ok st' \<and> pending st = pending st' @ [el]"
    if r: "read_ahead_step st = Inr (el, st')" for el st'
  proof -
    from read_ahead_step_fields [OF r]
    have nz: "read_head_buffer_n st \<noteq> 0"
      and b: "unat (read_head_buffer_n st - 1) < READ_AHEAD_BUFFER_SIZE"
      and e: "el = read_head_buffer st ! unat (read_head_buffer_n st - 1)"
      and f: "cache_frame (st\<lparr>read_head_buffer_n := read_head_buffer_n st - 1\<rparr>) st'"
      by simp_all
    from f have bf: "read_head_buffer st' = read_head_buffer st"
      and nf: "read_head_buffer_n st' = read_head_buffer_n st - 1"
      by (simp_all add: cache_frame_def)
    have "buffer_ok st'" using bf nf len b by (simp add: buffer_ok_def)
    moreover have "pending st = pending st' @ [el]"
      using bf nf len b e unat_pred [OF nz]
      by (simp add: pending_def take_Suc_conv_app_nth)
    ultimately show ?thesis by simp
  qed
  have serve: "\<exists>st'. read_ahead_step st = Inr (last (pending st), st') \<and> buffer_ok st'
             \<and> pending st' = butlast (pending st)"
    if ne: "pending st \<noteq> []" and rdy: "request_ready (last (pending st)) st"
  proof -
    from ne lp have "unat (read_head_buffer_n st) \<noteq> 0" by (metis length_0_conv)
    then have nz: "read_head_buffer_n st \<noteq> 0" by auto
    have u: "unat (read_head_buffer_n st) = Suc (unat (read_head_buffer_n st - 1))"
      using nz by (rule unat_pred)
    have b: "unat (read_head_buffer_n st - 1) < READ_AHEAD_BUFFER_SIZE" using u n by simp
    have l: "last (pending st) = read_head_buffer st ! unat (read_head_buffer_n st - 1)"
      using ne lp u b len by (simp add: last_conv_nth pending_def)
    from read_ahead_step_returns [OF nz b rdy [unfolded l]]
    obtain st' where r: "read_ahead_step st = Inr (last (pending st), st')"
      unfolding l by blast
    from pop [OF r] have ok': "buffer_ok st'"
      and eq: "pending st = pending st' @ [last (pending st)]"
      by simp_all
    from eq have "pending st' = butlast (pending st)" by (metis butlast_snoc)
    with r ok' show ?thesis by blast
  qed
  have empty: "read_ahead_step st = Inl Blocked" if "pending st = []"
  proof -
    from that have "unat (read_head_buffer_n st) = 0" using lp by simp
    then have "read_head_buffer_n st = 0" by (simp add: unat_eq_0)
    then show ?thesis by (simp add: read_ahead_step_def)
  qed
  from bound full put pop serve empty show ?thesis by blast
qed

theorem read_ahead_buffer_lifo_witness:
  "buffer_ok queued_state
   \<and> length (pending queued_state) \<le> READ_AHEAD_BUFFER_SIZE
   \<and> put_read_ahead_buffer 1 9 queued_state \<noteq> Inl Blocked
   \<and> unat (8 :: block_sector_t) < block_size 1 queued_state
   \<and> request_ready \<lparr>elem_sector = 8, elem_block = 1\<rparr> queued_state
   \<and> (\<exists>st'. read_ahead_step queued_state = Inr (\<lparr>elem_sector = 8, elem_block = 1\<rparr>, st')
         \<and> pending st' = [\<lparr>elem_sector = 5000, elem_block = 1\<rparr>])"
proof -
  have ok: "buffer_ok queued_state"
    by (simp add: buffer_ok_def queued_state_def init_state_def READ_AHEAD_BUFFER_SIZE_def)
  have rdy: "request_ready \<lparr>elem_sector = 8, elem_block = 1\<rparr> queued_state"
    using lines_free_queued
    by (simp add: request_ready_def list_ex_iff queued_state_def init_state_def calloc_line_def
          CACHE_SIZE_def)
  have inr: "unat (8 :: block_sector_t) < block_size 1 queued_state"
    by (simp add: block_size_def queued_state_def init_state_def)
  from read_ahead_buffer_lifo [OF ok, of 1 9] rdy ok inr show ?thesis
    by (simp add: pending_queued READ_AHEAD_BUFFER_SIZE_def) blast
qed

subsection \<open>An offset beyond the capacity of the block tree\<close>

lemma grow_loop_done: "\<not> 0 < remain \<Longrightarrow> grow_loop fuel junk remain d st = Inr (d, st)"
  by (subst grow_loop.simps) simp

lemma sector_count_overflow:
  "s32 (bytes_to_sectors 2147483647 - uint (0 :: 32 word)) = - 4194303"
  by (simp add: bytes_to_sectors_def s32_def cdiv_def BLOCK_SECTOR_SIZE_def)

text \<open>
  C1 says that for every offset \<open>p\<close> below the length \<open>byte_to_sector\<close> returns an entry
  of the block tree. The code does so only below the capacity of the tree,
  \<open>(10 + 128 + 128 * 128) * 512 = 8459264\<close> bytes, and no length is ever checked against
  it. \<open>inode_create\<close> accepts the length 2147483647 (here in sector 50 of a fresh device)
  and returns true, leaving this inode in the cache for its sector. On it, offset 8459264
  is below the length, the level-1 entry number is 128, and \<open>byte_to_sector\<close> reads
  \<open>temp_l1_blocks[128]\<close>, past the end of the array of 128 entries.
\<close>

theorem byte_to_sector_beyond_capacity:
  "(\<exists>st'. inode_create fuel junk 50 2147483647 False (init_state 1 4096 100) = Inr (True, st')
         \<and> sector_view 1 50 st' = bytes_of_inode_disk (data huge_file))
   \<and> 8459264 < inode_length huge_file
   \<and> byte_to_sector huge_file 8459264 st = Inl OutOfBounds"
proof (intro conjI)
  define st1 where "st1 = (init_state 1 4096 100)\<lparr>mem_left := 999\<rparr>"
  have m: "malloc (init_state 1 4096 100) = (True, st1)"
    by (simp add: malloc_def init_state_def st1_def)
  have d: "fresh_inode_disk\<lparr>length_bytes := 2147483647, magic := INODE_MAGIC,
              direct_usage := 0, indirect_used := 0, indirect_block_usage := 0,
              double_used := 0, double_l1_usage := 0, double_l2_usage := 0,
              sector_usage := 0, is_dir := False, parent := ROOT_DIR_SECTOR\<rparr> = data huge_file"
    by (simp add: huge_file_def fresh_inode_disk_def)
  have l: "length_bytes (data huge_file) = 2147483647" and u: "sector_usage (data huge_file) = 0"
    by (simp_all add: huge_file_def fresh_inode_disk_def)
  have g: "inode_disk_grow fuel junk (data huge_file) st1 = Inr (data huge_file, st1)"
    unfolding inode_disk_grow_def l u sector_count_overflow by (rule grow_loop_done) simp
  have dv: "fs_device st1 = 1" by (simp add: st1_def init_state_def)
  have lf: "lines_free st1"
    by (simp add: lines_free_def st1_def init_state_def calloc_line_def list_all_length)
  have ev: "list_ex (\<lambda>l. \<not> valid l \<or> time l < ticks st1) (cache st1)"
    by (simp add: list_ex_iff st1_def init_state_def calloc_line_def CACHE_SIZE_def)
  from cache_write_post [OF lf disjI2 [OF ev], of 1 50 "bytes_of_inode_disk (data huge_file)"]
  obtain st3 where cw: "cache_write 1 50 (bytes_of_inode_disk (data huge_file)) st1 = Inr st3"
    and v: "sector_view 1 50 st3 = bytes_of_inode_disk (data huge_file)"
    by blast
  have "inode_create fuel junk 50 2147483647 False (init_state 1 4096 100) = Inr (True, free st3)"
    using m g cw dv by (simp add: inode_create_def d)
  moreover have "sector_view 1 50 (free st3) = bytes_of_inode_disk (data huge_file)"
    using v by (simp add: sector_view_def free_def cong: option.case_cong)
  ultimately show "\<exists>st'. inode_create fuel junk 50 2147483647 False (init_state 1 4096 100)
                      = Inr (True, st')
         \<and> sector_view 1 50 st' = bytes_of_inode_disk (data huge_file)"
    by blast
  show "8459264 < inode_length huge_file"
    by (simp add: inode_length_def huge_file_def)
  show "byte_to_sector huge_file 8459264 st = Inl OutOfBounds"
    using byte_to_sector_mapping [of 8459264 huge_file st]
    by (simp add: huge_file_def BLOCK_SECTOR_SIZE_def Let_def)
qed

end
